theory Spec2Isabelle
  imports Complex_Main "HOL-Library.Log_Nat"
begin

section \<open>Grading helpers of TimeSeriesGym (timeseriesgym/grade_helpers.py)\<close>

subsection \<open>Python floats\<close>

text \<open>
  A finite Python float is an IEEE-754 double, that is a rational number with a 53-bit
  significand, and is modelled by the rational it denotes. \<open>to_double\<close> rounds a
  rational to the nearest double, ties to the even significand, which is what a float
  literal, an int-to-float conversion and a float multiplication do. Infinities, NaN,
  overflow and subnormal numbers are outside the model.
\<close>

definition round_half_even :: "rat \<Rightarrow> int" where
  "round_half_even x =
     (let f = \<lfloor>x\<rfloor>; d = x - of_int f
      in if d < 1 / 2 then f else if 1 / 2 < d then f + 1 else if even f then f else f + 1)"

definition binade :: "rat \<Rightarrow> int" where
  "binade x =
     (let (p, q) = quotient_of \<bar>x\<bar>; d = bitlen p - bitlen q
      in if \<bar>x\<bar> < 2 powi d then d - 53 else d - 52)"

definition to_double :: "rat \<Rightarrow> rat" where
  "to_double x =
     (if x = 0 then 0
      else let u = 2 powi binade x in of_int (round_half_even (x / u)) * u)"

text \<open>\<open>num_teams * 0.1\<close>: the int is converted to a float, then the product is rounded.\<close>

definition int_times_float :: "int \<Rightarrow> rat \<Rightarrow> rat" where
  "int_times_float n c = to_double (to_double (of_int n) * c)"

text \<open>\<open>int(x)\<close> on a float truncates towards zero.\<close>

definition py_int :: "rat \<Rightarrow> int" where
  "py_int x = (if 0 \<le> x then \<lfloor>x\<rfloor> else \<lceil>x\<rceil>)"

text \<open>The float literals of \<open>get_thresholds\<close>.\<close>

definition lit_0_1 :: rat where "lit_0_1 = to_double (1 / 10)"
definition lit_0_2 :: rat where "lit_0_2 = to_double (2 / 10)"
definition lit_0_4 :: rat where "lit_0_4 = to_double (4 / 10)"
definition lit_0_05 :: rat where "lit_0_05 = to_double (5 / 100)"
definition lit_0_002 :: rat where "lit_0_002 = to_double (2 / 1000)"

subsection \<open>Exceptions\<close>

datatype exc_class =
    AssertionError | IndexError | KeyError | ValueError | TypeError | OSError
  | InvalidSubmissionError
  | OtherException
  | NonException

text \<open>
  \<open>OtherException\<close> is any further subclass of \<open>Exception\<close>; \<open>NonException\<close> is a
  \<open>BaseException\<close> outside \<open>Exception\<close> (\<open>KeyboardInterrupt\<close>, \<open>SystemExit\<close>,
  \<open>GeneratorExit\<close>), which an \<open>except Exception\<close> clause does not catch.
\<close>

datatype exn = Exn (exn_class: exc_class) (exn_msg: string)

fun is_Exception :: "exc_class \<Rightarrow> bool" where
  "is_Exception NonException = False"
| "is_Exception _ = True"

subsection \<open>The leaderboard\<close>

text \<open>
  \<open>rank_score\<close> and \<open>is_lower_better\<close> read three things of the leaderboard frame:
  whether it has a column named \<open>score\<close>, that column, and the number of rows, which is
  the length of the column. The column is numeric: a cell holds a float (dtype
  \<open>float64\<close>) or an integer (dtype \<open>int64\<close>) and is modelled by the rational it
  denotes. \<open>float(x)\<close> on a cell is \<open>to_double\<close>: it leaves a float as it is and
  rounds an integer to the nearest double.
\<close>

datatype leaderboard = NoScoreColumn | ScoreColumn "rat list"

text \<open>A column of dtype \<open>float64\<close>: every cell is a double.\<close>

definition floats :: "rat list \<Rightarrow> bool" where
  "floats xs = list_all (\<lambda>x. to_double x = x) xs"

text \<open>\<open>scores.iloc[i]\<close>: positional indexing, negative positions count from the end.\<close>

definition iloc :: "rat list \<Rightarrow> int \<Rightarrow> exn + rat" where
  "iloc scores i =
     (if 0 \<le> i \<and> i < int (length scores) then Inr (scores ! nat i)
      else if i < 0 \<and> - int (length scores) \<le> i then Inr (scores ! nat (int (length scores) + i))
      else Inl (Exn IndexError ''single positional indexer is out-of-bounds''))"

fun is_lower_better :: "leaderboard \<Rightarrow> exn + bool" where
  "is_lower_better NoScoreColumn = Inl (Exn KeyError ''score'')"
| "is_lower_better (ScoreColumn scores) =
     (case iloc scores 0 of
        Inl e \<Rightarrow> Inl e
      | Inr top_score \<Rightarrow>
          (case iloc scores (- 1) of
             Inl e \<Rightarrow> Inl e
           | Inr bottom_score \<Rightarrow> Inr (top_score < bottom_score)))"

subsection \<open>Thresholds\<close>

definition get_score_at_position :: "rat list \<Rightarrow> int \<Rightarrow> exn + rat" where
  "get_score_at_position scores position =
     (if position - 1 \<ge> int (length scores) \<or> position < 1
      then Inl (Exn IndexError ''Position out of bounds in the leaderboard.'')
      else iloc scores (position - 1))"

text \<open>
  \<open>scores.median()\<close> of pandas on a numeric column: the cells are converted to
  \<open>float64\<close>, and the result is the middle value of the sorted column, or the mean of
  the two middle values, a float sum divided by two; NaN, here \<open>None\<close>, on an empty
  column.
\<close>

definition median :: "rat list \<Rightarrow> rat option" where
  "median xs =
     (let s = sort (map to_double xs); n = length s
      in if n = 0 then None
         else if odd n then Some (s ! (n div 2))
         else Some (to_double (to_double (s ! (n div 2 - 1) + s ! (n div 2)) / 2)))"

text \<open>
  The positions that the four branches of \<open>get_thresholds\<close> pass to
  \<open>get_score_at_position\<close>, in the order gold, silver, bronze.
\<close>

definition medal_positions :: "int \<Rightarrow> exn + (int \<times> int \<times> int)" where
  "medal_positions num_teams =
     (if 1 \<le> num_teams \<and> num_teams < 100 then
        Inr (max 1 (py_int (int_times_float num_teams lit_0_1)),
             max 1 (py_int (int_times_float num_teams lit_0_2)),
             max 1 (py_int (int_times_float num_teams lit_0_4)))
      else if 100 \<le> num_teams \<and> num_teams < 250 then
        Inr (10,
             max 1 (py_int (int_times_float num_teams lit_0_2)),
             max 1 (py_int (int_times_float num_teams lit_0_4)))
      else if 250 \<le> num_teams \<and> num_teams < 1000 then
        Inr (10 + py_int (int_times_float num_teams lit_0_002), 50, 100)
      else if num_teams \<ge> 1000 then
        Inr (10 + py_int (int_times_float num_teams lit_0_002),
             max 1 (py_int (int_times_float num_teams lit_0_05)),
             max 1 (py_int (int_times_float num_teams lit_0_1)))
      else Inl (Exn ValueError ''Number of teams in leaderboard must be greater than 0.''))"

definition get_thresholds :: "rat list \<Rightarrow> int \<Rightarrow> exn + (rat \<times> rat \<times> rat \<times> rat option)" where
  "get_thresholds scores num_teams =
     (case medal_positions num_teams of
        Inl e \<Rightarrow> Inl e
      | Inr (gold_pos, silver_pos, bronze_pos) \<Rightarrow>
          (case get_score_at_position scores gold_pos of
             Inl e \<Rightarrow> Inl e
           | Inr gold_threshold \<Rightarrow>
               (case get_score_at_position scores silver_pos of
                  Inl e \<Rightarrow> Inl e
                | Inr silver_threshold \<Rightarrow>
                    (case get_score_at_position scores bronze_pos of
                       Inl e \<Rightarrow> Inl e
                     | Inr bronze_threshold \<Rightarrow>
                         Inr (to_double gold_threshold,
                              to_double silver_threshold,
                              to_double bronze_threshold,
                              map_option to_double (median scores))))))"

subsection \<open>Ranking a score\<close>

text \<open>
  The \<open>score\<close> argument: \<open>None\<close>, a number, or a value of another type, of which
  the assertion prints the type.
\<close>

datatype pyscore = ScoreNone | ScoreNum rat | is_other: ScoreOther string

record rank_result =
  gold_medal :: bool
  silver_medal :: bool
  bronze_medal :: bool
  above_median :: bool
  gold_threshold :: rat
  silver_threshold :: rat
  bronze_threshold :: rat
  median_threshold :: "rat option"

text \<open>A comparison with NaN is false.\<close>

definition lt_float :: "rat \<Rightarrow> rat option \<Rightarrow> bool" where
  "lt_float x m = (case m of None \<Rightarrow> False | Some y \<Rightarrow> x < y)"

definition gt_float :: "rat \<Rightarrow> rat option \<Rightarrow> bool" where
  "gt_float x m = (case m of None \<Rightarrow> False | Some y \<Rightarrow> x > y)"

definition classify :: "bool \<Rightarrow> rat \<Rightarrow> rat \<times> rat \<times> rat \<times> rat option \<Rightarrow> rank_result" where
  "classify lower_is_better score t =
     (case t of (gold_t, silver_t, bronze_t, median_t) \<Rightarrow>
        (let gold = (if lower_is_better then score \<le> gold_t else score \<ge> gold_t);
             silver = (\<not> gold \<and> (if lower_is_better then score \<le> silver_t else score \<ge> silver_t));
             bronze = (\<not> gold \<and> \<not> silver
                         \<and> (if lower_is_better then score \<le> bronze_t else score \<ge> bronze_t));
             above = (if lower_is_better then lt_float score median_t else gt_float score median_t)
         in \<lparr>gold_medal = gold, silver_medal = silver, bronze_medal = bronze,
             above_median = above, gold_threshold = gold_t, silver_threshold = silver_t,
             bronze_threshold = bronze_t, median_threshold = median_t\<rparr>))"

definition rank_score :: "pyscore \<Rightarrow> leaderboard \<Rightarrow> exn + rank_result" where
  "rank_score score leaderboard =
     (case leaderboard of
        NoScoreColumn \<Rightarrow> Inl (Exn AssertionError ''Leaderboard must have a `score` column.'')
      | ScoreColumn scores \<Rightarrow>
          (case is_lower_better leaderboard of
             Inl e \<Rightarrow> Inl e
           | Inr lower_is_better \<Rightarrow>
               (case get_thresholds scores (int (length scores)) of
                  Inl e \<Rightarrow> Inl e
                | Inr (gold_t, silver_t, bronze_t, median_t) \<Rightarrow>
                    (case score of
                       ScoreNone \<Rightarrow>
                         Inr \<lparr>gold_medal = False, silver_medal = False, bronze_medal = False,
                              above_median = False, gold_threshold = gold_t,
                              silver_threshold = silver_t, bronze_threshold = bronze_t,
                              median_threshold = median_t\<rparr>
                     | ScoreOther ty \<Rightarrow>
                         Inl (Exn AssertionError
                               (''Expected `score` to be a `float` or `int` but got a ''
                                @ ty @ ''.''))
                     | ScoreNum x \<Rightarrow>
                         Inr (classify lower_is_better x (gold_t, silver_t, bronze_t, median_t))))))"

subsection \<open>Python values\<close>

text \<open>
  The values that a scoring function returns and that the dictionaries of the report
  codecs hold. \<open>PyFloat\<close> is a built-in \<open>float\<close>; \<open>NpFloat64\<close> is a
  \<open>numpy.float64\<close>, the scalar that numpy and pandas computations return, a subclass
  of \<open>float\<close> with methods of its own. Of an object of another type only its truth
  value is observed.
\<close>

datatype pyval =
    PyNone | PyBool bool | PyInt int | PyFloat rat | NpFloat64 rat | PyStr string
  | PyOther bool

text \<open>\<open>bool(v)\<close>\<close>

fun py_bool :: "pyval \<Rightarrow> bool" where
  "py_bool PyNone = False"
| "py_bool (PyBool b) = b"
| "py_bool (PyInt i) = (i \<noteq> 0)"
| "py_bool (PyFloat x) = (x \<noteq> 0)"
| "py_bool (NpFloat64 x) = (x \<noteq> 0)"
| "py_bool (PyStr s) = (s \<noteq> [])"
| "py_bool (PyOther b) = b"

text \<open>
  \<open>round(x, ndigits)\<close> calls \<open>type(x).__round__\<close>. On a built-in float the exact
  value of \<open>x\<close> is rounded to the nearest multiple of \<open>10\<^sup>-\<^sup>n\<close>, a tie to the even
  multiple, and the decimal is converted back to a double.
\<close>

definition py_round :: "rat \<Rightarrow> nat \<Rightarrow> rat" where
  "py_round x ndigits = to_double (of_int (round_half_even (x * 10 ^ ndigits)) / 10 ^ ndigits)"

text \<open>
  On a \<open>numpy.float64\<close> with \<open>ndigits > 0\<close> the rounding is done in float arithmetic:
  the float product \<open>x * 10\<^sup>n\<close> is rounded to the nearest integer by \<open>rint\<close>, a tie to
  the even one, and divided by \<open>10\<^sup>n\<close>.
\<close>

definition np_round :: "rat \<Rightarrow> nat \<Rightarrow> rat" where
  "np_round x ndigits =
     to_double (of_int (round_half_even (to_double (x * 10 ^ ndigits))) / 10 ^ ndigits)"

text \<open>Rounding half up at five decimals, as the specification words it.\<close>

definition spec_round_half_up_5 :: "rat \<Rightarrow> rat" where
  "spec_round_half_up_5 x = to_double (of_int \<lfloor>x * 10 ^ 5 + 1 / 2\<rfloor> / 10 ^ 5)"

text \<open>\<open>str(n)\<close> for a natural number.\<close>

fun str_nat :: "nat \<Rightarrow> string" where
  "str_nat n =
     (if n < 10 then [''0123456789'' ! n]
      else str_nat (n div 10) @ [''0123456789'' ! (n mod 10)])"

declare str_nat.simps [simp del]

subsection \<open>Grader\<close>

record 'o grading_input =
  submission :: "'o option"
  answers :: "'o option"
  submission_folder_path :: "'o option"
  hyperparameter_search_config :: "'o option"
  solution_file_path :: "'o option"
  submission_file_path :: "'o option"
  coding_config :: "'o option"

text \<open>
  A scoring function: what a call with keyword arguments does, and what the \<open>inspect\<close>
  module and \<open>str\<close> say of the function object. \<open>inspect.getfile\<close> raises
  \<open>TypeError\<close> on a built-in object; \<open>inspect.getsourcelines\<close> raises \<open>OSError\<close> when
  the source cannot be retrieved.
\<close>

record 'o pyfunction =
  call :: "(string \<times> 'o) list \<Rightarrow> exn + pyval"
  getfile :: "exn + string"
  getsourcelines :: "exn + nat"
  fn_str :: string

record 'o grader =
  name :: string
  grade_fn :: "'o pyfunction"

datatype log_level = WARNING | ERROR

type_synonym log = "(log_level \<times> string) list"

text \<open>\<open>{k: v for k, v in grading_input.__dict__.items() if v is not None}\<close>\<close>

definition kwargs :: "'o grading_input \<Rightarrow> (string \<times> 'o) list" where
  "kwargs gi =
     concat (map (\<lambda>(k, v). case v of None \<Rightarrow> [] | Some x \<Rightarrow> [(k, x)])
       [(''submission'', submission gi),
        (''answers'', answers gi),
        (''submission_folder_path'', submission_folder_path gi),
        (''hyperparameter_search_config'', hyperparameter_search_config gi),
        (''solution_file_path'', solution_file_path gi),
        (''submission_file_path'', submission_file_path gi),
        (''coding_config'', coding_config gi)])"

text \<open>
  The inner \<open>try\<close> of the second handler: file and line of the scoring function, its
  string when the lookup raises \<open>TypeError\<close>; any other exception of the lookup leaves
  the handler.
\<close>

definition fn_info :: "'o pyfunction \<Rightarrow> exn + string" where
  "fn_info f =
     (case getfile f of
        Inl e \<Rightarrow> if exn_class e = TypeError then Inr (fn_str f) else Inl e
      | Inr fpath \<Rightarrow>
          (case getsourcelines f of
             Inl e \<Rightarrow> if exn_class e = TypeError then Inr (fn_str f) else Inl e
           | Inr line_number \<Rightarrow> Inr (fpath @ '':'' @ str_nat line_number)))"

text \<open>\<open>Grader.__call__\<close>, with the log it writes to.\<close>

definition grader_call :: "'o grader \<Rightarrow> 'o grading_input \<Rightarrow> log \<Rightarrow> (exn + pyval) \<times> log" where
  "grader_call g grading_input lg =
     (case call (grade_fn g) (kwargs grading_input) of
        Inl e \<Rightarrow>
          if exn_class e = InvalidSubmissionError then
            (Inr PyNone, lg @ [(WARNING, ''Invalid submission: '' @ exn_msg e)])
          else if is_Exception (exn_class e) then
            (case fn_info (grade_fn g) of
               Inl e' \<Rightarrow> (Inl e', lg)
             | Inr info \<Rightarrow>
                 (Inr PyNone,
                  lg @ [(ERROR, ''Unexpected error during grading: '' @ exn_msg e
                                 @ ''. Check '' @ info)]))
          else (Inl e, lg)
      | Inr score \<Rightarrow>
          (Inr (case score of
                  PyFloat x \<Rightarrow> PyFloat (py_round x 5)
                | NpFloat64 x \<Rightarrow> NpFloat64 (np_round x 5)
                | _ \<Rightarrow> score), lg))"

text \<open>
  A scoring function that does the same on every call, and an input with no field set.
\<close>

definition constant_grader :: "exn + pyval \<Rightarrow> unit grader" where
  "constant_grader outcome =
     \<lparr>name = ''grader'',
      grade_fn = \<lparr>call = (\<lambda>_. outcome), getfile = Inr ''grade.py'',
                  getsourcelines = Inr 12, fn_str = ''function grade''\<rparr>\<rparr>"

definition empty_input :: "unit grading_input" where
  "empty_input =
     \<lparr>submission = None, answers = None, submission_folder_path = None,
      hyperparameter_search_config = None, solution_file_path = None,
      submission_file_path = None, coding_config = None\<rparr>"

subsection \<open>Reports and their dictionaries\<close>

text \<open>
  The library functions that the codecs call: \<open>str\<close> and \<open>float\<close> on the score,
  \<open>datetime.isoformat\<close> and \<open>datetime.fromisoformat\<close> on the timestamp, over a type
  \<open>'dt\<close> of timestamps.
\<close>

record 'dt pylib =
  py_str :: "rat \<Rightarrow> string"
  float_of_str :: "string \<Rightarrow> exn + rat"
  isoformat :: "'dt \<Rightarrow> string"
  fromisoformat :: "string \<Rightarrow> exn + 'dt"

type_synonym pydict = "string \<Rightarrow> pyval option"

definition exn_bind :: "exn + 'a \<Rightarrow> ('a \<Rightarrow> exn + 'b) \<Rightarrow> exn + 'b" where
  "exn_bind m f = (case m of Inl e \<Rightarrow> Inl e | Inr x \<Rightarrow> f x)"

text \<open>\<open>data[k]\<close>\<close>

definition getitem :: "pydict \<Rightarrow> string \<Rightarrow> exn + pyval" where
  "getitem data k = (case data k of None \<Rightarrow> Inl (Exn KeyError k) | Some v \<Rightarrow> Inr v)"

text \<open>\<open>float(v)\<close>\<close>

fun py_float :: "'dt pylib \<Rightarrow> pyval \<Rightarrow> exn + rat" where
  "py_float L (PyFloat x) = Inr x"
| "py_float L (NpFloat64 x) = Inr x"
| "py_float L (PyInt i) = Inr (to_double (of_int i))"
| "py_float L (PyBool b) = Inr (if b then 1 else 0)"
| "py_float L (PyStr s) = float_of_str L s"
| "py_float L _ = Inl (Exn TypeError ''float() argument must be a string or a real number'')"

text \<open>\<open>datetime.fromisoformat(v)\<close>\<close>

fun py_fromisoformat :: "'dt pylib \<Rightarrow> pyval \<Rightarrow> exn + 'dt" where
  "py_fromisoformat L (PyStr s) = fromisoformat L s"
| "py_fromisoformat L _ = Inl (Exn TypeError ''fromisoformat: argument must be str'')"

text \<open>
  \<open>CompetitionReport\<close>. The fields have the types of their annotations; the two fields
  that the codec passes through unread, \<open>competition_id\<close> and \<open>submission_path\<close>, hold
  any value.
\<close>

record 'dt competition_report =
  cr_competition_id :: pyval
  cr_score :: "rat option"
  cr_gold_threshold :: "rat option"
  cr_silver_threshold :: "rat option"
  cr_bronze_threshold :: "rat option"
  cr_median_threshold :: "rat option"
  cr_any_medal :: "bool option"
  cr_gold_medal :: "bool option"
  cr_silver_medal :: "bool option"
  cr_bronze_medal :: "bool option"
  cr_above_median :: "bool option"
  cr_submission_exists :: bool
  cr_valid_submission :: bool
  cr_is_lower_better :: bool
  cr_created_at :: 'dt
  cr_submission_path :: pyval

text \<open>\<open>float(x)\<close> and \<open>bool(x)\<close> on a field that may be \<open>None\<close>.\<close>

definition float_field :: "rat option \<Rightarrow> exn + rat" where
  "float_field x =
     (case x of
        None \<Rightarrow> Inl (Exn TypeError ''float() argument must be a string or a real number'')
      | Some v \<Rightarrow> Inr v)"

definition bool_field :: "bool option \<Rightarrow> bool" where
  "bool_field x = (case x of None \<Rightarrow> False | Some b \<Rightarrow> b)"

definition CompetitionReport_to_dict :: "'dt pylib \<Rightarrow> 'dt competition_report \<Rightarrow> exn + pydict" where
  "CompetitionReport_to_dict L r =
     exn_bind (float_field (cr_gold_threshold r)) (\<lambda>gold.
     exn_bind (float_field (cr_silver_threshold r)) (\<lambda>silver.
     exn_bind (float_field (cr_bronze_threshold r)) (\<lambda>bronze.
     exn_bind (float_field (cr_median_threshold r)) (\<lambda>med.
       Inr (map_of
         [(''competition_id'', cr_competition_id r),
          (''score'', case cr_score r of None \<Rightarrow> PyNone | Some x \<Rightarrow> PyStr (py_str L x)),
          (''gold_threshold'', PyFloat gold),
          (''silver_threshold'', PyFloat silver),
          (''bronze_threshold'', PyFloat bronze),
          (''median_threshold'', PyFloat med),
          (''any_medal'', PyBool (bool_field (cr_any_medal r))),
          (''gold_medal'', PyBool (bool_field (cr_gold_medal r))),
          (''silver_medal'', PyBool (bool_field (cr_silver_medal r))),
          (''bronze_medal'', PyBool (bool_field (cr_bronze_medal r))),
          (''above_median'', PyBool (bool_field (cr_above_median r))),
          (''submission_exists'', PyBool (cr_submission_exists r)),
          (''valid_submission'', PyBool (cr_valid_submission r)),
          (''is_lower_better'', PyBool (cr_is_lower_better r)),
          (''created_at'', PyStr (isoformat L (cr_created_at r))),
          (''submission_path'', cr_submission_path r)])))))"

text \<open>The \<open>typed_data\<close> of \<open>CompetitionReport.from_dict\<close> and the report built from it.\<close>

definition CompetitionReport_typed_data :: "'dt pylib \<Rightarrow> pydict \<Rightarrow> exn + 'dt competition_report" where
  "CompetitionReport_typed_data L data =
     exn_bind (getitem data ''competition_id'') (\<lambda>cid.
     exn_bind (getitem data ''score'') (\<lambda>sc.
     exn_bind (if sc \<noteq> PyNone then exn_bind (py_float L sc) (\<lambda>x. Inr (Some x)) else Inr None) (\<lambda>score.
     exn_bind (exn_bind (getitem data ''gold_threshold'') (py_float L)) (\<lambda>gold.
     exn_bind (exn_bind (getitem data ''silver_threshold'') (py_float L)) (\<lambda>silver.
     exn_bind (exn_bind (getitem data ''bronze_threshold'') (py_float L)) (\<lambda>bronze.
     exn_bind (exn_bind (getitem data ''median_threshold'') (py_float L)) (\<lambda>med.
     exn_bind (getitem data ''any_medal'') (\<lambda>any_m.
     exn_bind (getitem data ''gold_medal'') (\<lambda>gold_m.
     exn_bind (getitem data ''silver_medal'') (\<lambda>silver_m.
     exn_bind (getitem data ''bronze_medal'') (\<lambda>bronze_m.
     exn_bind (getitem data ''above_median'') (\<lambda>above.
     exn_bind (getitem data ''submission_exists'') (\<lambda>sub_exists.
     exn_bind (getitem data ''valid_submission'') (\<lambda>valid.
     exn_bind (getitem data ''is_lower_better'') (\<lambda>lower.
     exn_bind (exn_bind (getitem data ''created_at'') (py_fromisoformat L)) (\<lambda>created.
     exn_bind (getitem data ''submission_path'') (\<lambda>path.
       Inr \<lparr>cr_competition_id = cid, cr_score = score,
            cr_gold_threshold = Some gold, cr_silver_threshold = Some silver,
            cr_bronze_threshold = Some bronze, cr_median_threshold = Some med,
            cr_any_medal = Some (py_bool any_m), cr_gold_medal = Some (py_bool gold_m),
            cr_silver_medal = Some (py_bool silver_m),
            cr_bronze_medal = Some (py_bool bronze_m),
            cr_above_median = Some (py_bool above),
            cr_submission_exists = py_bool sub_exists, cr_valid_submission = py_bool valid,
            cr_is_lower_better = py_bool lower, cr_created_at = created,
            cr_submission_path = path\<rparr>)))))))))))))))))"

text \<open>
  \<open>CodeCompetitionReport\<close>: every field but the two flags and the timestamp is passed
  through unread.
\<close>

record 'dt code_competition_report =
  ccr_competition_id :: pyval
  ccr_defined_classes :: pyval
  ccr_initialized_classes :: pyval
  ccr_defined_class_methods :: pyval
  ccr_executed_class_methods :: pyval
  ccr_defined_functions :: pyval
  ccr_executed_functions :: pyval
  ccr_test_metric :: pyval
  ccr_submission_exists :: bool
  ccr_valid_submission :: bool
  ccr_created_at :: 'dt
  ccr_submission_path :: pyval

definition CodeCompetitionReport_to_dict :: "'dt pylib \<Rightarrow> 'dt code_competition_report \<Rightarrow> pydict" where
  "CodeCompetitionReport_to_dict L r =
     map_of
       [(''competition_id'', ccr_competition_id r),
        (''defined_classes'', ccr_defined_classes r),
        (''initialized_classes'', ccr_initialized_classes r),
        (''defined_class_methods'', ccr_defined_class_methods r),
        (''executed_class_methods'', ccr_executed_class_methods r),
        (''defined_functions'', ccr_defined_functions r),
        (''executed_functions'', ccr_executed_functions r),
        (''test_metric'', ccr_test_metric r),
        (''submission_exists'', PyBool (ccr_submission_exists r)),
        (''valid_submission'', PyBool (ccr_valid_submission r)),
        (''created_at'', PyStr (isoformat L (ccr_created_at r))),
        (''submission_path'', ccr_submission_path r)]"

definition CodeCompetitionReport_typed_data ::
    "'dt pylib \<Rightarrow> pydict \<Rightarrow> exn + 'dt code_competition_report" where
  "CodeCompetitionReport_typed_data L data =
     exn_bind (getitem data ''competition_id'') (\<lambda>cid.
     exn_bind (getitem data ''defined_classes'') (\<lambda>dc.
     exn_bind (getitem data ''initialized_classes'') (\<lambda>ic.
     exn_bind (getitem data ''defined_class_methods'') (\<lambda>dcm.
     exn_bind (getitem data ''executed_class_methods'') (\<lambda>ecm.
     exn_bind (getitem data ''defined_functions'') (\<lambda>df.
     exn_bind (getitem data ''executed_functions'') (\<lambda>ef.
     exn_bind (getitem data ''test_metric'') (\<lambda>tm.
     exn_bind (getitem data ''submission_exists'') (\<lambda>sub_exists.
     exn_bind (getitem data ''valid_submission'') (\<lambda>valid.
     exn_bind (exn_bind (getitem data ''created_at'') (py_fromisoformat L)) (\<lambda>created.
     exn_bind (getitem data ''submission_path'') (\<lambda>path.
       Inr \<lparr>ccr_competition_id = cid, ccr_defined_classes = dc,
            ccr_initialized_classes = ic, ccr_defined_class_methods = dcm,
            ccr_executed_class_methods = ecm, ccr_defined_functions = df,
            ccr_executed_functions = ef, ccr_test_metric = tm,
            ccr_submission_exists = py_bool sub_exists,
            ccr_valid_submission = py_bool valid, ccr_created_at = created,
            ccr_submission_path = path\<rparr>))))))))))))"

text \<open>
  Dictionaries are objects: a heap maps addresses to dictionaries, \<open>next_free\<close> is the
  first unused address. \<open>data.copy()\<close> allocates a dictionary with the entries of
  \<open>data\<close>. Both \<open>from_dict\<close> methods rebind \<open>data\<close> to the copy and read the copy.
\<close>

record heap =
  objs :: "nat \<Rightarrow> pydict"
  next_free :: nat

definition dict_copy :: "heap \<Rightarrow> nat \<Rightarrow> nat \<times> heap" where
  "dict_copy h data =
     (next_free h,
      h\<lparr>objs := (objs h)(next_free h := objs h data), next_free := Suc (next_free h)\<rparr>)"

definition CompetitionReport_from_dict ::
    "'dt pylib \<Rightarrow> heap \<Rightarrow> nat \<Rightarrow> (exn + 'dt competition_report) \<times> heap" where
  "CompetitionReport_from_dict L h data =
     (case dict_copy h data of
        (data', h') \<Rightarrow> (CompetitionReport_typed_data L (objs h' data'), h'))"

definition CodeCompetitionReport_from_dict ::
    "'dt pylib \<Rightarrow> heap \<Rightarrow> nat \<Rightarrow> (exn + 'dt code_competition_report) \<times> heap" where
  "CodeCompetitionReport_from_dict L h data =
     (case dict_copy h data of
        (data', h') \<Rightarrow> (CodeCompetitionReport_typed_data L (objs h' data'), h'))"

text \<open>
  A valid \<open>CompetitionReport\<close>: the thresholds and the medal flags are set, as
  \<open>rank_score\<close> returns them.
\<close>

definition valid_report :: "'dt competition_report \<Rightarrow> bool" where
  "valid_report r \<longleftrightarrow>
     cr_gold_threshold r \<noteq> None \<and> cr_silver_threshold r \<noteq> None
     \<and> cr_bronze_threshold r \<noteq> None \<and> cr_median_threshold r \<noteq> None
     \<and> cr_any_medal r \<noteq> None \<and> cr_gold_medal r \<noteq> None \<and> cr_silver_medal r \<noteq> None
     \<and> cr_bronze_medal r \<noteq> None \<and> cr_above_median r \<noteq> None"

text \<open>
  A small library for examples: timestamps are seconds since 1970, and only the values
  used in the examples are printed and parsed.
\<close>

definition example_lib :: "nat pylib" where
  "example_lib =
     \<lparr>py_str = (\<lambda>x. if x = 1 / 2 then ''0.5'' else ''1.5''),
      float_of_str = (\<lambda>s. if s = ''0.5'' then Inr (1 / 2)
                           else if s = ''1.5'' then Inr (3 / 2)
                           else Inl (Exn ValueError ''could not convert string to float'')),
      isoformat = (\<lambda>t. if t = 0 then ''1970-01-01T00:00:00'' else ''1970-01-01T00:00:01''),
      fromisoformat = (\<lambda>s. if s = ''1970-01-01T00:00:00'' then Inr 0
                            else if s = ''1970-01-01T00:00:01'' then Inr 1
                            else Inl (Exn ValueError ''Invalid isoformat string''))\<rparr>"

definition example_report :: "nat competition_report" where
  "example_report =
     \<lparr>cr_competition_id = PyStr ''demo'', cr_score = Some (1 / 2),
      cr_gold_threshold = Some 9, cr_silver_threshold = Some 8,
      cr_bronze_threshold = Some 6, cr_median_threshold = Some (9 / 2),
      cr_any_medal = Some False, cr_gold_medal = Some False, cr_silver_medal = Some False,
      cr_bronze_medal = Some False, cr_above_median = Some False,
      cr_submission_exists = True, cr_valid_submission = True, cr_is_lower_better = False,
      cr_created_at = 0, cr_submission_path = PyStr ''submission.csv''\<rparr>"

definition example_code_report :: "nat code_competition_report" where
  "example_code_report =
     \<lparr>ccr_competition_id = PyStr ''demo'', ccr_defined_classes = PyStr ''A'',
      ccr_initialized_classes = PyNone, ccr_defined_class_methods = PyStr ''A.f'',
      ccr_executed_class_methods = PyNone, ccr_defined_functions = PyStr ''g'',
      ccr_executed_functions = PyStr ''g'', ccr_test_metric = PyNone,
      ccr_submission_exists = True, ccr_valid_submission = False, ccr_created_at = 1,
      ccr_submission_path = PyStr ''submission.py''\<rparr>"

subsection \<open>The threshold bands of the specification\<close>

text \<open>
  The table of the specification, with exact arithmetic: for \<open>n\<close> rows, the 1-based
  positions of the gold, silver and bronze thresholds.
\<close>

definition spec_positions :: "int \<Rightarrow> int \<times> int \<times> int" where
  "spec_positions n =
     (if n < 100 then
        (max 1 \<lfloor>(10 / 100 :: rat) * of_int n\<rfloor>,
         max 1 \<lfloor>(20 / 100 :: rat) * of_int n\<rfloor>,
         max 1 \<lfloor>(40 / 100 :: rat) * of_int n\<rfloor>)
      else if n < 250 then
        (10,
         max 1 \<lfloor>(20 / 100 :: rat) * of_int n\<rfloor>,
         max 1 \<lfloor>(40 / 100 :: rat) * of_int n\<rfloor>)
      else if n < 1000 then
        (10 + \<lfloor>(2 / 1000 :: rat) * of_int n\<rfloor>, 50, 100)
      else
        (10 + \<lfloor>(2 / 1000 :: rat) * of_int n\<rfloor>,
         max 1 \<lfloor>(5 / 100 :: rat) * of_int n\<rfloor>,
         max 1 \<lfloor>(10 / 100 :: rat) * of_int n\<rfloor>))"

section \<open>Properties\<close>

subsection \<open>Rounding to a double\<close>

lemma round_half_even_of_int: "round_half_even (of_int k) = k"
  by (simp add: round_half_even_def)

lemma round_half_even_lower: "\<lfloor>y\<rfloor> \<le> round_half_even y"
  by (simp add: round_half_even_def Let_def)

lemma round_half_even_upper: "of_int (round_half_even y) \<le> y + 1 / 2"
  unfolding round_half_even_def Let_def
  by (auto simp: not_less) linarith+

lemma round_half_even_cases:
  fixes y :: rat
  defines "d \<equiv> y - of_int \<lfloor>y\<rfloor>"
  shows "0 \<le> d" "d < 1"
    "d < 1 / 2 \<Longrightarrow> round_half_even y = \<lfloor>y\<rfloor>"
    "1 / 2 < d \<Longrightarrow> round_half_even y = \<lfloor>y\<rfloor> + 1"
    "d = 1 / 2 \<Longrightarrow> even \<lfloor>y\<rfloor> \<Longrightarrow> round_half_even y = \<lfloor>y\<rfloor>"
    "d = 1 / 2 \<Longrightarrow> odd \<lfloor>y\<rfloor> \<Longrightarrow> round_half_even y = \<lfloor>y\<rfloor> + 1"
proof -
  show "0 \<le> d" unfolding d_def by simp
  show "d < 1" unfolding d_def by linarith
qed (simp_all add: round_half_even_def Let_def d_def)

lemma round_half_even_near: "\<bar>y - of_int (round_half_even y)\<bar> \<le> 1 / 2"
proof -
  define d where "d = y - of_int \<lfloor>y\<rfloor>"
  note c = round_half_even_cases[of y, folded d_def]
  consider "d < 1 / 2" | "1 / 2 < d" | "d = 1 / 2" "even \<lfloor>y\<rfloor>" | "d = 1 / 2" "odd \<lfloor>y\<rfloor>"
    by fastforce
  then show ?thesis
  proof cases
    case 1 then show ?thesis using c(1,2,3) d_def by simp
  next
    case 2 then show ?thesis using c(1,2,4) d_def by simp
  next
    case 3 then show ?thesis using c(1,2,5) d_def by simp
  next
    case 4 then show ?thesis using c(1,2,6) d_def by simp
  qed
qed

lemma round_half_even_tie:
  assumes "\<bar>y - of_int (round_half_even y)\<bar> = 1 / 2"
  shows "even (round_half_even y)"
proof -
  define d where "d = y - of_int \<lfloor>y\<rfloor>"
  note c = round_half_even_cases[of y, folded d_def]
  consider "d < 1 / 2" | "1 / 2 < d" | "d = 1 / 2" "even \<lfloor>y\<rfloor>" | "d = 1 / 2" "odd \<lfloor>y\<rfloor>"
    by fastforce
  then show ?thesis
  proof cases
    case 1 then show ?thesis using c(1,2,3) d_def assms by simp
  next
    case 2 then show ?thesis using c(1,2,4) d_def assms by simp
  next
    case 3 then show ?thesis using c(5) by simp
  next
    case 4 then show ?thesis using c(6) by simp
  qed
qed

lemma round_half_even_no_tie:
  assumes "y - of_int \<lfloor>y\<rfloor> \<noteq> 1 / 2"
  shows "round_half_even y = \<lfloor>y + 1 / 2\<rfloor>"
proof (cases "y - of_int \<lfloor>y\<rfloor> < 1 / 2")
  case True
  then have "\<lfloor>y + 1 / 2\<rfloor> = \<lfloor>y\<rfloor>" by (intro floor_unique) linarith+
  then show ?thesis using True by (simp add: round_half_even_def Let_def)
next
  case False
  with assms have g: "1 / 2 < y - of_int \<lfloor>y\<rfloor>" by simp
  have "\<lfloor>y + 1 / 2\<rfloor> = \<lfloor>y\<rfloor> + 1" by (intro floor_unique) (use g in \<open>simp; linarith\<close>)+
  then show ?thesis using g False by (simp add: round_half_even_def Let_def)
qed


lemma bitlen_rat_bounds:
  assumes "0 < p"
  shows "(2::rat) powi (bitlen p - 1) \<le> of_int p" "of_int p < (2::rat) powi (bitlen p)"
proof -
  from bitlen_bounds[OF assms] have a: "2 ^ nat (bitlen p - 1) \<le> p" and b: "p < 2 ^ nat (bitlen p)"
    by auto
  have pos: "1 \<le> bitlen p" using assms by (auto simp: bitlen_alt_def)
  have "(2::rat) powi (bitlen p - 1) = 2 ^ nat (bitlen p - 1)"
    using pos by (simp add: power_int_nonneg_exp)
  also have "\<dots> = of_int (2 ^ nat (bitlen p - 1))" by simp
  also have "\<dots> \<le> of_int p" using a by (simp only: of_int_le_iff)
  finally show "(2::rat) powi (bitlen p - 1) \<le> of_int p" .
  have "of_int p < (of_int (2 ^ nat (bitlen p)) :: rat)" using b by (simp only: of_int_less_iff)
  also have "\<dots> = 2 ^ nat (bitlen p)" by simp
  also have "\<dots> = 2 powi (bitlen p)" using pos by (simp add: power_int_nonneg_exp)
  finally show "of_int p < (2::rat) powi (bitlen p)" .
qed

lemma binade_bounds:
  assumes "0 < x"
  shows "2 powi (binade x + 52) \<le> x" "x < 2 powi (binade x + 53)"
proof -
  obtain p q where pq: "quotient_of x = (p, q)" by (cases "quotient_of x")
  have q: "0 < q" using pq by (rule quotient_of_denom_pos)
  have x: "x = of_int p / of_int q" using pq by (rule quotient_of_div)
  have p: "0 < p" using assms q x by (simp add: zero_less_divide_iff)
  define d where "d = bitlen p - bitlen q"
  note bp = bitlen_rat_bounds[OF p] and bq = bitlen_rat_bounds[OF q]
  have qpos: "(0::rat) < of_int q" using q by simp
  have lo: "2 powi (d - 1) \<le> x"
  proof -
    have "(2::rat) powi (d - 1) = 2 powi (bitlen p - 1) / 2 powi (bitlen q)"
      unfolding d_def by (simp add: power_int_diff)
    also have "\<dots> \<le> of_int p / of_int q"
      by (rule frac_le) (use bp bq qpos p in \<open>auto intro: less_imp_le\<close>)
    finally show ?thesis using x by simp
  qed
  have hi: "x < 2 powi (d + 1)"
  proof -
    have "x = of_int p / of_int q" by (rule x)
    also have "\<dots> < 2 powi (bitlen p) / 2 powi (bitlen q - 1)"
      by (rule frac_less) (use bp bq qpos p in \<open>auto intro: less_imp_le\<close>)
    also have "\<dots> = 2 powi (d + 1)"
      unfolding d_def by (simp add: power_int_diff power_int_add)
    finally show ?thesis .
  qed
  have b: "binade x = (if x < 2 powi d then d - 53 else d - 52)"
    using assms pq by (simp add: binade_def d_def)
  show "2 powi (binade x + 52) \<le> x"
  proof (cases "x < 2 powi d")
    case True
    then have eq: "binade x + 52 = d - 1" using b by simp
    show ?thesis by (subst eq) (rule lo)
  next
    case False
    then have eq: "binade x + 52 = d" using b by simp
    show ?thesis using False by (subst eq) simp
  qed
  show "x < 2 powi (binade x + 53)"
  proof (cases "x < 2 powi d")
    case True
    then have eq: "binade x + 53 = d" using b by simp
    show ?thesis by (subst eq) (rule True)
  next
    case False
    then have eq: "binade x + 53 = d + 1" using b by simp
    show ?thesis by (subst eq) (rule hi)
  qed
qed

lemma powi_nonpos: "e \<le> 0 \<Longrightarrow> (2::rat) powi e = 1 / 2 ^ nat (- e)"
  by (simp add: power_int_def field_simps)

lemma binade_less:
  assumes "0 < x" "x < 2 powi m"
  shows "binade x + 52 < m"
proof -
  have lt: "(2::rat) powi (binade x + 52) < 2 powi m"
    using binade_bounds(1)[OF assms(1)] assms(2) by (rule le_less_trans)
  show ?thesis
  proof (rule ccontr)
    assume "\<not> binade x + 52 < m"
    then have "m \<le> binade x + 52" by simp
    then have "(2::rat) powi m \<le> 2 powi (binade x + 52)"
      by (rule power_int_increasing) simp
    with lt show False by simp
  qed
qed

lemma to_double_nonneg_int:
  assumes "0 \<le> n" "n < 2 ^ 53"
  shows "to_double (of_int n) = of_int n"
proof (cases "n = 0")
  case True
  then show ?thesis by (simp add: to_double_def)
next
  case False
  define x :: rat where "x = of_int n"
  have xpos: "0 < x" using assms False by (simp add: x_def)
  have "x < 2 powi 53" using assms(2) unfolding x_def
    by (metis of_int_less_iff of_int_numeral of_int_power power_int_numeral)
  from binade_less[OF xpos this] have e: "binade x \<le> 0" by simp
  define j where "j = nat (- binade x)"
  have u: "(2::rat) powi binade x = 1 / 2 ^ j" using e by (simp add: powi_nonpos j_def)
  have "x / (2 powi binade x) = x * 2 ^ j" by (simp add: u)
  also have "\<dots> = of_int (n * 2 ^ j)" by (simp add: x_def)
  finally have "round_half_even (x / (2 powi binade x)) = n * 2 ^ j"
    by (simp only: round_half_even_of_int)
  then have "to_double x = of_int (n * 2 ^ j) * (1 / 2 ^ j)"
    using xpos by (simp add: to_double_def Let_def u)
  then show ?thesis by (simp add: x_def)
qed

lemma to_double_floor:
  assumes "0 < x" "x < 2 ^ m" "m \<le> 53" "of_int k \<le> x"
    and "x + 1 / 2 ^ (54 - m) < of_int k + 1"
  shows "\<lfloor>to_double x\<rfloor> = k"
proof -
  have "x < 2 powi (int m)" using assms(2) by simp
  from binade_less[OF assms(1) this] have e: "binade x \<le> int m - 53" by simp
  define j where "j = nat (- binade x)"
  have j: "53 - m \<le> j" using e assms(3) by (simp add: j_def)
  define u :: rat where "u = 1 / 2 ^ j"
  have "binade x \<le> 0" using e assms(3) by simp
  then have u: "(2::rat) powi binade x = u" by (simp add: powi_nonpos j_def u_def)
  have upos: "0 < u" by (simp add: u_def)
  have "(2::rat) ^ (53 - m) \<le> 2 ^ j" using j by (intro power_increasing) auto
  then have "u \<le> 1 / 2 ^ (53 - m)" unfolding u_def by (simp add: field_simps)
  moreover have "(2::rat) ^ (54 - m) = 2 * 2 ^ (53 - m)"
    using assms(3) by (simp add: Suc_diff_le flip: power_Suc)
  ultimately have usmall: "u / 2 \<le> 1 / 2 ^ (54 - m)" by simp
  define M where "M = round_half_even (x / u)"
  have td: "to_double x = of_int M * u"
    using assms(1) by (simp add: to_double_def Let_def u M_def)
  have "of_int M \<le> x / u + 1 / 2" unfolding M_def by (rule round_half_even_upper)
  then have "of_int M * u \<le> (x / u + 1 / 2) * u" using upos by (simp only: mult_le_cancel_right_pos)
  also have "\<dots> = x + u / 2" using upos by (simp add: field_simps)
  also have "\<dots> \<le> x + 1 / 2 ^ (54 - m)" using usmall by simp
  finally have up: "to_double x < of_int k + 1" using assms(5) td by simp
  have "of_int (k * 2 ^ j) = of_int k / u" by (simp add: u_def)
  also have "\<dots> \<le> x / u" using assms(4) upos by (simp add: divide_right_mono)
  finally have "k * 2 ^ j \<le> \<lfloor>x / u\<rfloor>" by (simp only: le_floor_iff)
  also have "\<dots> \<le> M" unfolding M_def by (rule round_half_even_lower)
  finally have "(of_int (k * 2 ^ j) :: rat) \<le> of_int M" by (simp only: of_int_le_iff)
  then have "of_int (k * 2 ^ j) * u \<le> of_int M * u" using upos by (simp only: mult_le_cancel_right_pos)
  then have lo: "of_int k \<le> to_double x" using td by (simp add: u_def)
  show ?thesis using lo up by (simp add: floor_unique)
qed

lemma lit_0_1_val: "lit_0_1 = 3602879701896397 / 36028797018963968"
  unfolding lit_0_1_def by code_simp
lemma lit_0_2_val: "lit_0_2 = 3602879701896397 / 18014398509481984"
  unfolding lit_0_2_def by code_simp
lemma lit_0_4_val: "lit_0_4 = 3602879701896397 / 9007199254740992"
  unfolding lit_0_4_def by code_simp
lemma lit_0_05_val: "lit_0_05 = 3602879701896397 / 72057594037927936"
  unfolding lit_0_05_def by code_simp
lemma lit_0_002_val: "lit_0_002 = 1152921504606847 / 576460752303423488"
  unfolding lit_0_002_def by code_simp

lemma to_double_pos:
  assumes "0 < x"
  shows "0 < to_double x" "to_double x \<le> x + x / 2 ^ 53"
proof -
  define u :: rat where "u = 2 powi binade x"
  have upos: "0 < u" unfolding u_def by simp
  have "(2::rat) powi (binade x + 52) = u * 2 ^ 52"
    unfolding u_def by (simp add: power_int_add)
  then have b: "u * 2 ^ 52 \<le> x" using binade_bounds(1)[OF assms] by simp
  define M where "M = round_half_even (x / u)"
  have td: "to_double x = of_int M * u"
    using assms by (simp add: to_double_def Let_def u_def M_def)
  have "(2::rat) ^ 52 \<le> x / u" using b upos by (simp add: pos_le_divide_eq mult.commute)
  then have "(of_int (2 ^ 52) :: rat) \<le> x / u" by simp
  then have "2 ^ 52 \<le> \<lfloor>x / u\<rfloor>" by (simp only: le_floor_iff)
  also have "\<dots> \<le> M" unfolding M_def by (rule round_half_even_lower)
  finally have "0 < M" by simp
  then show "0 < to_double x" using upos td by simp
  have "of_int M \<le> x / u + 1 / 2" unfolding M_def by (rule round_half_even_upper)
  then have "of_int M * u \<le> (x / u + 1 / 2) * u"
    using upos by (simp only: mult_le_cancel_right_pos)
  also have "\<dots> = x + u / 2" using upos by (simp add: field_simps)
  also have "\<dots> \<le> x + x / 2 ^ 53" using b by (simp add: field_simps)
  finally show "to_double x \<le> x + x / 2 ^ 53" using td by simp
qed

lemma py_int_times_float:
  assumes n: "0 \<le> n" "n < 2 ^ 53" and c: "0 < c"
    and xb: "of_int n * c < 2 ^ m" "m \<le> 53"
    and lo: "of_int k \<le> of_int n * c"
    and hi: "of_int n * c + 1 / 2 ^ (54 - m) < of_int k + 1"
  shows "py_int (int_times_float n c) = k"
proof -
  have conv: "to_double (of_int n) = of_int n" using n by (simp add: to_double_nonneg_int)
  show ?thesis
  proof (cases "n = 0")
    case True
    have "k \<le> 0" using lo True by simp
    moreover have p: "(0::rat) < 1 / 2 ^ (54 - m)" by simp
    have z: "of_int n * c = 0" using True by simp
    have "(0::rat) < of_int k + 1" using hi p unfolding z by linarith
    then have "(0::rat) < of_int (k + 1)" by simp
    then have "0 < k + 1" by (simp only: of_int_0_less_iff)
    ultimately have "k = 0" by simp
    then show ?thesis using True by (simp add: int_times_float_def to_double_def py_int_def)
  next
    case False
    define x where "x = of_int n * c"
    have nr: "(0::rat) < of_int n" using n(1) False by simp
    have xpos: "0 < x" unfolding x_def using nr c by simp
    have fl: "\<lfloor>to_double x\<rfloor> = k"
      using xpos xb lo hi unfolding x_def by (rule to_double_floor)
    have "0 < to_double x" using xpos by (rule to_double_pos(1))
    then show ?thesis using fl by (simp add: int_times_float_def conv py_int_def x_def)
  qed
qed

lemma div_mod_rat:
  fixes m d :: int
  assumes "0 < d"
  shows "(of_int m :: rat) = of_int d * of_int (m div d) + of_int (m mod d)"
    "(0::rat) \<le> of_int (m mod d)" "(of_int (m mod d) :: rat) \<le> of_int d - 1"
proof -
  have "(of_int (d * (m div d) + m mod d) :: rat) = of_int m"
    by (simp only: mult_div_mod_eq)
  then show "(of_int m :: rat) = of_int d * of_int (m div d) + of_int (m mod d)"
    by (simp only: of_int_add of_int_mult)
  show "(0::rat) \<le> of_int (m mod d)" using assms by simp
  have "m mod d \<le> d - 1" using assms by simp
  then have "(of_int (m mod d) :: rat) \<le> of_int (d - 1)" by (simp only: of_int_le_iff)
  then show "(of_int (m mod d) :: rat) \<le> of_int d - 1" by simp
qed

lemma row_bound_rat:
  fixes n :: int
  assumes "n < 2 ^ e"
  shows "(of_int n :: rat) < 2 ^ e"
proof -
  have "(of_int n :: rat) < of_int (2 ^ e)" using assms by (simp only: of_int_less_iff)
  then show ?thesis by simp
qed

lemma int_0_1:
  assumes "0 \<le> n" "n < 2 ^ 52"
  shows "py_int (int_times_float n lit_0_1) = n div 10"
proof (rule py_int_times_float[where m = 49])
  note d = div_mod_rat[of 10 "n", simplified] and b = row_bound_rat[OF assms(2), simplified]
  show "0 \<le> n" by (rule assms(1))
  show "n < 2 ^ 53" using assms(2) by simp
  show "0 < lit_0_1" by (simp add: lit_0_1_val)
  show "(49::nat) \<le> 53" by simp
  have nn: "(0::rat) \<le> of_int n" using assms(1) by simp
  have e: "(2::rat) ^ 49 = 562949953421312" "(1::rat) / 2 ^ (54 - 49) = 1 / 32" by simp_all
  show "of_int n * lit_0_1 < 2 ^ 49"
    unfolding lit_0_1_val e using nn b by linarith
  show "of_int (n div 10) \<le> of_int n * lit_0_1"
    unfolding lit_0_1_val e using d nn b by linarith
  show "of_int n * lit_0_1 + 1 / 2 ^ (54 - 49) < of_int (n div 10) + 1"
    unfolding lit_0_1_val e using d nn b by linarith
qed

lemma int_0_2:
  assumes "0 \<le> n" "n < 2 ^ 52"
  shows "py_int (int_times_float n lit_0_2) = n div 5"
proof (rule py_int_times_float[where m = 50])
  note d = div_mod_rat[of 5 "n", simplified] and b = row_bound_rat[OF assms(2), simplified]
  show "0 \<le> n" by (rule assms(1))
  show "n < 2 ^ 53" using assms(2) by simp
  show "0 < lit_0_2" by (simp add: lit_0_2_val)
  show "(50::nat) \<le> 53" by simp
  have nn: "(0::rat) \<le> of_int n" using assms(1) by simp
  have e: "(2::rat) ^ 50 = 1125899906842624" "(1::rat) / 2 ^ (54 - 50) = 1 / 16" by simp_all
  show "of_int n * lit_0_2 < 2 ^ 50"
    unfolding lit_0_2_val e using nn b by linarith
  show "of_int (n div 5) \<le> of_int n * lit_0_2"
    unfolding lit_0_2_val e using d nn b by linarith
  show "of_int n * lit_0_2 + 1 / 2 ^ (54 - 50) < of_int (n div 5) + 1"
    unfolding lit_0_2_val e using d nn b by linarith
qed

lemma int_0_4:
  assumes "0 \<le> n" "n < 2 ^ 51"
  shows "py_int (int_times_float n lit_0_4) = (2 * n) div 5"
proof (rule py_int_times_float[where m = 50])
  note d = div_mod_rat[of 5 "2 * n", simplified] and b = row_bound_rat[OF assms(2), simplified]
  show "0 \<le> n" by (rule assms(1))
  show "n < 2 ^ 53" using assms(2) by simp
  show "0 < lit_0_4" by (simp add: lit_0_4_val)
  show "(50::nat) \<le> 53" by simp
  have nn: "(0::rat) \<le> of_int n" using assms(1) by simp
  have e: "(2::rat) ^ 50 = 1125899906842624" "(1::rat) / 2 ^ (54 - 50) = 1 / 16" by simp_all
  show "of_int n * lit_0_4 < 2 ^ 50"
    unfolding lit_0_4_val e using nn b by linarith
  show "of_int ((2 * n) div 5) \<le> of_int n * lit_0_4"
    unfolding lit_0_4_val e using d nn b by linarith
  show "of_int n * lit_0_4 + 1 / 2 ^ (54 - 50) < of_int ((2 * n) div 5) + 1"
    unfolding lit_0_4_val e using d nn b by linarith
qed

lemma int_0_05:
  assumes "0 \<le> n" "n < 2 ^ 52"
  shows "py_int (int_times_float n lit_0_05) = n div 20"
proof (rule py_int_times_float[where m = 48])
  note d = div_mod_rat[of 20 "n", simplified] and b = row_bound_rat[OF assms(2), simplified]
  show "0 \<le> n" by (rule assms(1))
  show "n < 2 ^ 53" using assms(2) by simp
  show "0 < lit_0_05" by (simp add: lit_0_05_val)
  show "(48::nat) \<le> 53" by simp
  have nn: "(0::rat) \<le> of_int n" using assms(1) by simp
  have e: "(2::rat) ^ 48 = 281474976710656" "(1::rat) / 2 ^ (54 - 48) = 1 / 64" by simp_all
  show "of_int n * lit_0_05 < 2 ^ 48"
    unfolding lit_0_05_val e using nn b by linarith
  show "of_int (n div 20) \<le> of_int n * lit_0_05"
    unfolding lit_0_05_val e using d nn b by linarith
  show "of_int n * lit_0_05 + 1 / 2 ^ (54 - 48) < of_int (n div 20) + 1"
    unfolding lit_0_05_val e using d nn b by linarith
qed

lemma int_0_002:
  assumes "0 \<le> n" "n < 2 ^ 52"
  shows "py_int (int_times_float n lit_0_002) = n div 500"
proof (rule py_int_times_float[where m = 44])
  note d = div_mod_rat[of 500 "n", simplified] and b = row_bound_rat[OF assms(2), simplified]
  show "0 \<le> n" by (rule assms(1))
  show "n < 2 ^ 53" using assms(2) by simp
  show "0 < lit_0_002" by (simp add: lit_0_002_val)
  show "(44::nat) \<le> 53" by simp
  have nn: "(0::rat) \<le> of_int n" using assms(1) by simp
  have e: "(2::rat) ^ 44 = 17592186044416" "(1::rat) / 2 ^ (54 - 44) = 1 / 1024" by simp_all
  show "of_int n * lit_0_002 < 2 ^ 44"
    unfolding lit_0_002_val e using nn b by linarith
  show "of_int (n div 500) \<le> of_int n * lit_0_002"
    unfolding lit_0_002_val e using d nn b by linarith
  show "of_int n * lit_0_002 + 1 / 2 ^ (54 - 44) < of_int (n div 500) + 1"
    unfolding lit_0_002_val e using d nn b by linarith
qed

text \<open>Rounding is odd, monotone and commutes with doubling.\<close>

lemma round_half_even_minus: "round_half_even (- y) = - round_half_even y"
proof (cases "y = of_int \<lfloor>y\<rfloor>")
  case True
  then obtain k where k: "y = of_int k" by metis
  have "- y = of_int (- k)" using k by simp
  then have "round_half_even (- y) = - k" by (simp only: round_half_even_of_int)
  then show ?thesis unfolding k by (simp add: round_half_even_of_int)
next
  case False
  define f where "f = \<lfloor>y\<rfloor>"
  define d where "d = y - of_int f"
  have fl1: "of_int f < y" unfolding f_def
    by (intro le_neq_trans of_int_floor_le) (use False in auto)
  have fl2: "y < of_int f + 1" unfolding f_def by linarith
  note fl = fl1 fl2
  have nf: "\<lfloor>- y\<rfloor> = - f - 1" using fl by (intro floor_unique) simp_all
  have nd: "- y - of_int \<lfloor>- y\<rfloor> = 1 - d" unfolding nf d_def by simp
  note c = round_half_even_cases[of y, folded f_def, folded d_def]
  note n = round_half_even_cases[of "- y", unfolded nd, unfolded nf]
  consider "d < 1 / 2" | "1 / 2 < d" | "d = 1 / 2" "even f" | "d = 1 / 2" "odd f"
    by fastforce
  then show ?thesis
  proof cases
    case 1 then show ?thesis using c(3) n(4) by simp
  next
    case 2 then show ?thesis using c(4) n(3) by simp
  next
    case 3 then show ?thesis using c(5) n(6) by simp
  next
    case 4 then show ?thesis using c(6) n(5) by simp
  qed
qed

lemma round_half_even_mono:
  assumes "y1 \<le> y2"
  shows "round_half_even y1 \<le> round_half_even y2"
proof (cases "\<lfloor>y1\<rfloor> = \<lfloor>y2\<rfloor>")
  case True
  define d1 where "d1 = y1 - of_int \<lfloor>y1\<rfloor>"
  define d2 where "d2 = y2 - of_int \<lfloor>y2\<rfloor>"
  have d: "d1 \<le> d2" unfolding d1_def d2_def True using assms by simp
  note c1 = round_half_even_cases[of y1, folded d1_def]
  note c2 = round_half_even_cases[of y2, folded d2_def]
  consider "d1 < 1 / 2" | "1 / 2 < d1" | "d1 = 1 / 2" "d2 = 1 / 2" | "d1 = 1 / 2" "1 / 2 < d2"
    using d by fastforce
  then show ?thesis
  proof cases
    case 1
    then have "round_half_even y1 = \<lfloor>y2\<rfloor>" using c1(3) True by simp
    then show ?thesis using round_half_even_lower[of y2] by simp
  next
    case 2
    then have "1 / 2 < d2" using d by simp
    then show ?thesis using c1(4) c2(4) 2 True by simp
  next
    case 3
    then show ?thesis using c1(5,6) c2(5,6) True by (cases "even \<lfloor>y2\<rfloor>") simp_all
  next
    case 4
    then have "round_half_even y2 = \<lfloor>y2\<rfloor> + 1" using c2(4) by simp
    moreover have "round_half_even y1 \<le> \<lfloor>y1\<rfloor> + 1"
      using c1(5,6) 4(1) by (cases "even \<lfloor>y1\<rfloor>") simp_all
    ultimately show ?thesis using True by simp
  qed
next
  case False
  then have lt: "\<lfloor>y1\<rfloor> + 1 \<le> \<lfloor>y2\<rfloor>" using assms floor_mono[OF assms] by simp
  define d1 where "d1 = y1 - of_int \<lfloor>y1\<rfloor>"
  note c1 = round_half_even_cases[of y1, folded d1_def]
  have "round_half_even y1 \<le> \<lfloor>y1\<rfloor> + 1"
  proof -
    consider "d1 < 1 / 2" | "1 / 2 < d1" | "d1 = 1 / 2" by fastforce
    then show ?thesis
    proof cases
      case 1 then show ?thesis using c1(3) by simp
    next
      case 2 then show ?thesis using c1(4) by simp
    next
      case 3 then show ?thesis using c1(5,6) by (cases "even \<lfloor>y1\<rfloor>") simp_all
    qed
  qed
  then show ?thesis using lt round_half_even_lower[of y2] by simp
qed

lemma binade_minus: "binade (- x) = binade x"
  by (simp add: binade_def)

lemma to_double_minus: "to_double (- x) = - to_double x"
proof (cases "x = 0")
  case True then show ?thesis by (simp add: to_double_def)
next
  case False
  have "(- x) / 2 powi binade x = - (x / 2 powi binade x)" by simp
  then show ?thesis
    using False by (simp add: to_double_def Let_def binade_minus round_half_even_minus)
qed

lemma binade_unique:
  assumes "0 < x" "2 powi (e + 52) \<le> x" "x < 2 powi (e + 53)"
  shows "binade x = e"
proof (rule antisym)
  have "(2::rat) powi (binade x + 52) < 2 powi (e + 53)"
    using binade_bounds(1)[OF assms(1)] assms(3) by (rule le_less_trans)
  then have "binade x + 52 < e + 53"
    by (meson linorder_not_less one_le_numeral power_int_increasing)
  then show "binade x \<le> e" by simp
  have "(2::rat) powi (e + 52) < 2 powi (binade x + 53)"
    using assms(2) binade_bounds(2)[OF assms(1)] by (rule le_less_trans)
  then have "e + 52 < binade x + 53"
    by (meson linorder_not_less one_le_numeral power_int_increasing)
  then show "e \<le> binade x" by simp
qed

lemma binade_mono:
  assumes "0 < x" "x \<le> y"
  shows "binade x \<le> binade y"
proof -
  have y: "0 < y" using assms by simp
  have "(2::rat) powi (binade x + 52) < 2 powi (binade y + 53)"
    using binade_bounds(1)[OF assms(1)] assms(2) binade_bounds(2)[OF y] by linarith
  then have "binade x + 52 < binade y + 53"
    by (meson linorder_not_less one_le_numeral power_int_increasing)
  then show ?thesis by simp
qed


lemma to_double_significand:
  assumes "0 < x"
  shows "to_double x = of_int (round_half_even (x / 2 powi binade x)) * 2 powi binade x"
    and "2 ^ 52 \<le> round_half_even (x / 2 powi binade x)"
    and "round_half_even (x / 2 powi binade x) \<le> 2 ^ 53"
proof -
  define u :: rat where "u = 2 powi binade x"
  have upos: "0 < u" unfolding u_def by simp
  show "to_double x = of_int (round_half_even (x / 2 powi binade x)) * 2 powi binade x"
    using assms by (simp add: to_double_def Let_def)
  have "(2::rat) powi (binade x + 52) = u * 2 ^ 52"
    unfolding u_def by (simp add: power_int_add)
  then have "u * 2 ^ 52 \<le> x" using binade_bounds(1)[OF assms] by simp
  then have "(2::rat) ^ 52 \<le> x / u" using upos by (simp add: pos_le_divide_eq mult.commute)
  then have "(of_int (2 ^ 52) :: rat) \<le> x / u" by simp
  then have "round_half_even (of_int (2 ^ 52)) \<le> round_half_even (x / u)"
    by (rule round_half_even_mono)
  then show "2 ^ 52 \<le> round_half_even (x / 2 powi binade x)"
    unfolding u_def by (simp only: round_half_even_of_int)
  have "(2::rat) powi (binade x + 53) = u * 2 ^ 53"
    unfolding u_def by (simp add: power_int_add)
  then have "x < u * 2 ^ 53" using binade_bounds(2)[OF assms] by simp
  then have "x / u \<le> 2 ^ 53" using upos by (simp add: pos_divide_le_eq mult.commute)
  then have "x / u \<le> of_int (2 ^ 53)" by simp
  then have "round_half_even (x / u) \<le> round_half_even (of_int (2 ^ 53))"
    by (rule round_half_even_mono)
  then show "round_half_even (x / 2 powi binade x) \<le> 2 ^ 53"
    unfolding u_def by (simp only: round_half_even_of_int)
qed

lemma to_double_mono_pos:
  assumes "0 < x" "x \<le> y"
  shows "to_double x \<le> to_double y"
proof -
  have y: "0 < y" using assms by simp
  define ux :: rat where "ux = 2 powi binade x"
  define uy :: rat where "uy = 2 powi binade y"
  define Mx where "Mx = round_half_even (x / ux)"
  define My where "My = round_half_even (y / uy)"
  note sx = to_double_significand[OF assms(1), folded ux_def, folded Mx_def]
  note sy = to_double_significand[OF y, folded uy_def, folded My_def]
  have upos: "0 < ux" "0 < uy" unfolding ux_def uy_def by simp_all
  show ?thesis
  proof (cases "binade x = binade y")
    case True
    then have u: "ux = uy" unfolding ux_def uy_def by simp
    have "x / ux \<le> y / uy" unfolding u using assms(2) upos(2) by (simp add: divide_right_mono)
    then have "Mx \<le> My" unfolding Mx_def My_def by (rule round_half_even_mono)
    then have "(of_int Mx :: rat) \<le> of_int My" by (simp only: of_int_le_iff)
    then show ?thesis unfolding sx(1) sy(1) u using upos(2) by (simp only: mult_le_cancel_right_pos)
  next
    case False
    then have lt: "binade x + 1 \<le> binade y" using binade_mono[OF assms] by simp
    have "(of_int Mx :: rat) \<le> of_int (2 ^ 53)" using sx(3) by (simp only: of_int_le_iff)
    then have "of_int Mx * ux \<le> 2 ^ 53 * ux" using upos(1) by simp
    also have "2 ^ 53 * ux = 2 ^ 52 * 2 powi (binade x + 1)"
      unfolding ux_def by (simp add: power_int_add)
    also have "\<dots> \<le> 2 ^ 52 * uy"
      unfolding uy_def using lt by (intro mult_left_mono power_int_increasing) simp_all
    also have "\<dots> \<le> of_int My * uy"
    proof -
      have "(of_int (2 ^ 52) :: rat) \<le> of_int My" using sy(2) by (simp only: of_int_le_iff)
      then show ?thesis using upos(2) by simp
    qed
    finally show ?thesis unfolding sx(1) sy(1) .
  qed
qed

lemma to_double_zero: "to_double 0 = 0"
  by (simp add: to_double_def)

lemma to_double_mono:
  assumes "x \<le> y"
  shows "to_double x \<le> to_double y"
proof -
  consider "0 < x" | "x = 0" | "x < 0" "y < 0" | "x < 0" "0 \<le> y" by linarith
  then show ?thesis
  proof cases
    case 1 then show ?thesis using assms by (rule to_double_mono_pos)
  next
    case 2
    show ?thesis
    proof (cases "y = 0")
      case True then show ?thesis using 2 by simp
    next
      case False
      then have "0 < y" using assms 2 by simp
      then show ?thesis using to_double_pos(1)[of y] 2 by (simp add: to_double_zero)
    qed
  next
    case 3
    have "to_double (- y) \<le> to_double (- x)"
      using 3 assms by (intro to_double_mono_pos) simp_all
    then show ?thesis by (simp add: to_double_minus)
  next
    case 4
    have "0 < to_double (- x)" using 4(1) by (intro to_double_pos(1)) simp
    then have a: "to_double x < 0" by (simp add: to_double_minus)
    have "0 \<le> to_double y"
    proof (cases "y = 0")
      case True then show ?thesis by (simp add: to_double_zero)
    next
      case False
      then have "0 < y" using 4(2) by simp
      then show ?thesis using to_double_pos(1)[of y] by simp
    qed
    then show ?thesis using a by simp
  qed
qed

lemma to_double_twice_pos:
  assumes "0 < x"
  shows "to_double (2 * x) = 2 * to_double x"
proof -
  have b: "binade (2 * x) = binade x + 1"
  proof (rule binade_unique)
    show "0 < 2 * x" using assms by simp
    have "(2::rat) powi (binade x + 1 + 52) = 2 * 2 powi (binade x + 52)"
      by (simp add: power_int_add)
    then show "2 powi (binade x + 1 + 52) \<le> 2 * x"
      using binade_bounds(1)[OF assms] by simp
    have "(2::rat) powi (binade x + 1 + 53) = 2 * 2 powi (binade x + 53)"
      by (simp add: power_int_add)
    then show "2 * x < 2 powi (binade x + 1 + 53)"
      using binade_bounds(2)[OF assms] by simp
  qed
  have u: "(2::rat) powi (binade x + 1) = 2 * 2 powi binade x" by (simp add: power_int_add)
  have q: "2 * x / (2 * 2 powi binade x) = x / 2 powi binade x" by simp
  show ?thesis using assms unfolding to_double_def Let_def b u q by simp
qed

lemma to_double_twice: "to_double (2 * x) = 2 * to_double x"
proof -
  consider "0 < x" | "x = 0" | "x < 0" by linarith
  then show ?thesis
  proof cases
    case 1 then show ?thesis by (rule to_double_twice_pos)
  next
    case 2 then show ?thesis by (simp add: to_double_zero)
  next
    case 3
    then have "to_double (2 * (- x)) = 2 * to_double (- x)" by (intro to_double_twice_pos) simp
    moreover have "2 * (- x) = - (2 * x)" by simp
    ultimately show ?thesis by (simp only: to_double_minus)
  qed
qed

text \<open>A double is its own nearest double.\<close>

lemma to_double_idem_pos:
  assumes "0 < x"
  shows "to_double (to_double x) = to_double x"
proof -
  define u :: rat where "u = 2 powi binade x"
  define M where "M = round_half_even (x / u)"
  note s = to_double_significand[OF assms, folded u_def, folded M_def]
  have upos: "0 < u" unfolding u_def by simp
  have Mpos: "(0::rat) < of_int M" using s(2) by simp
  have ypos: "0 < of_int M * u" using Mpos upos by simp
  have lo: "(2::rat) powi (binade x + 52) = 2 ^ 52 * u"
    unfolding u_def by (simp add: power_int_add)
  have hi: "(2::rat) powi (binade x + 53) = 2 ^ 53 * u"
    unfolding u_def by (simp add: power_int_add)
  show ?thesis
  proof (cases "M = 2 ^ 53")
    case True
    have y: "of_int M * u = 2 ^ 52 * (2 * u)" unfolding True by simp
    have u2: "(2::rat) powi (binade x + 1) = 2 * u"
      unfolding u_def by (simp add: power_int_add)
    have b: "binade (of_int M * u) = binade x + 1"
    proof (rule binade_unique[OF ypos])
      have "(2::rat) powi (binade x + 1 + 52) = 2 ^ 52 * (2 * u)"
        unfolding u_def by (simp add: power_int_add)
      then show "2 powi (binade x + 1 + 52) \<le> of_int M * u" unfolding y by simp
      have "(2::rat) powi (binade x + 1 + 53) = 2 ^ 53 * (2 * u)"
        unfolding u_def by (simp add: power_int_add)
      then show "of_int M * u < 2 powi (binade x + 1 + 53)" unfolding y using upos by simp
    qed
    have q: "of_int M * u / (2 * u) = of_int (2 ^ 52)" unfolding y using upos by simp
    have "to_double (of_int M * u) = of_int (2 ^ 52) * (2 * u)"
      using Mpos upos unfolding to_double_def Let_def b u2 q round_half_even_of_int by simp
    also have "\<dots> = of_int M * u" unfolding y by simp
    finally show ?thesis unfolding s(1) .
  next
    case False
    then have M: "M < 2 ^ 53" using s(3) by simp
    have b: "binade (of_int M * u) = binade x"
    proof (rule binade_unique[OF ypos])
      have "(of_int (2 ^ 52) :: rat) \<le> of_int M" using s(2) by (simp only: of_int_le_iff)
      then show "2 powi (binade x + 52) \<le> of_int M * u" unfolding lo using upos by simp
      have "(of_int M :: rat) < of_int (2 ^ 53)" using M by (simp only: of_int_less_iff)
      then show "of_int M * u < 2 powi (binade x + 53)" unfolding hi using upos by simp
    qed
    have q: "of_int M * u / u = of_int M" using upos by simp
    have "to_double (of_int M * u) = of_int M * u"
      using Mpos upos unfolding to_double_def Let_def b u_def[symmetric] q round_half_even_of_int
      by simp
    then show ?thesis unfolding s(1) .
  qed
qed

lemma to_double_idem: "to_double (to_double x) = to_double x"
proof -
  consider "0 < x" | "x = 0" | "x < 0" by linarith
  then show ?thesis
  proof cases
    case 1 then show ?thesis by (rule to_double_idem_pos)
  next
    case 2 then show ?thesis by (simp add: to_double_zero)
  next
    case 3
    then have "to_double (to_double (- x)) = to_double (- x)"
      by (intro to_double_idem_pos) simp
    then show ?thesis by (simp only: to_double_minus neg_equal_iff_equal)
  qed
qed

lemma mean_between:
  assumes "a \<le> b" "to_double a = a" "to_double b = b"
  shows "a \<le> to_double (to_double (a + b) / 2)" "to_double (to_double (a + b) / 2) \<le> b"
proof -
  define s where "s = to_double (a + b)"
  have "to_double (2 * a) \<le> s" unfolding s_def using assms(1) by (intro to_double_mono) simp
  then have lo: "a \<le> s / 2" unfolding to_double_twice assms(2) by simp
  have "s \<le> to_double (2 * b)" unfolding s_def using assms(1) by (intro to_double_mono) simp
  then have hi: "s / 2 \<le> b" unfolding to_double_twice assms(3) by simp
  show "a \<le> to_double (to_double (a + b) / 2)"
    using to_double_mono[OF lo] unfolding assms(2) s_def .
  show "to_double (to_double (a + b) / 2) \<le> b"
    using to_double_mono[OF hi] unfolding assms(3) s_def .
qed

text \<open>Bounds that hold for every number of rows.\<close>

lemma int_times_float_range:
  assumes "1 \<le> n" "0 < c"
  shows "0 \<le> py_int (int_times_float n c)"
    and "of_int (py_int (int_times_float n c)) \<le> of_int n * c * (101 / 100)"
proof -
  define q :: rat where "q = 1 + 1 / 2 ^ 53"
  have q: "0 < q" "q * q \<le> 101 / 100" unfolding q_def by simp_all
  define a where "a = to_double (of_int n)"
  have npos: "(0::rat) < of_int n" using assms(1) by simp
  have a: "0 < a" "a \<le> of_int n * q"
    using to_double_pos[OF npos] unfolding a_def q_def by (simp_all add: field_simps)
  define y where "y = a * c"
  have ypos: "0 < y" unfolding y_def using a(1) assms(2) by simp
  have y: "y \<le> of_int n * q * c"
    unfolding y_def using a(2) assms(2) by (simp add: mult_right_mono)
  define t where "t = to_double y"
  have t: "0 < t" "t \<le> y * q"
    using to_double_pos[OF ypos] unfolding t_def q_def by (simp_all add: field_simps)
  have "y * q \<le> of_int n * q * c * q" using y q(1) by (simp add: mult_right_mono)
  also have "\<dots> = (of_int n * c) * (q * q)" by simp
  also have "\<dots> \<le> (of_int n * c) * (101 / 100)"
    using q(2) npos assms(2) by (intro mult_left_mono) simp_all
  finally have tb: "t \<le> of_int n * c * (101 / 100)" using t(2) by simp
  have p: "py_int (int_times_float n c) = \<lfloor>t\<rfloor>"
    using t(1) unfolding py_int_def int_times_float_def t_def y_def a_def by simp
  show "0 \<le> py_int (int_times_float n c)" unfolding p using t(1) by simp
  have "of_int \<lfloor>t\<rfloor> \<le> t" by simp
  then have "of_int \<lfloor>t\<rfloor> \<le> of_int n * c * (101 / 100)" using tb by (rule order_trans)
  then show "of_int (py_int (int_times_float n c)) \<le> of_int n * c * (101 / 100)"
    unfolding p .
qed

lemma position_le:
  assumes "1 \<le> n" "0 < c" "c \<le> 1 / 2"
  shows "max 1 (py_int (int_times_float n c)) \<le> n" "1 \<le> max 1 (py_int (int_times_float n c))"
proof -
  have npos: "(0::rat) < of_int n" using assms(1) by simp
  have "of_int n * c \<le> of_int n * (1 / 2)" using assms(3) npos by (intro mult_left_mono) simp_all
  then have "of_int n * c * (101 / 100) \<le> (of_int n :: rat)" using npos by simp
  with int_times_float_range(2)[OF assms(1,2)]
  have "(of_int (py_int (int_times_float n c)) :: rat) \<le> of_int n" by simp
  then have "py_int (int_times_float n c) \<le> n" by (simp only: of_int_le_iff)
  then show "max 1 (py_int (int_times_float n c)) \<le> n" using assms(1) by simp
  show "1 \<le> max 1 (py_int (int_times_float n c))" by simp
qed

lemma gold_position_le:
  assumes "250 \<le> n"
  shows "10 + py_int (int_times_float n lit_0_002) \<le> n"
    "1 \<le> 10 + py_int (int_times_float n lit_0_002)"
proof -
  have n1: "1 \<le> n" using assms by simp
  have c: "0 < lit_0_002" "lit_0_002 \<le> 1 / 400" by (simp_all add: lit_0_002_val)
  have nr: "(250::rat) \<le> of_int n" using assms by simp
  have "of_int n * lit_0_002 \<le> of_int n * (1 / 400)"
    using c(2) nr by (intro mult_left_mono) simp_all
  with int_times_float_range(2)[OF n1 c(1)]
  have "(of_int (py_int (int_times_float n lit_0_002)) :: rat) \<le> of_int n * (1 / 400) * (101 / 100)"
    by simp
  then have "(of_int (10 + py_int (int_times_float n lit_0_002)) :: rat) \<le> of_int n"
    using nr by simp
  then show "10 + py_int (int_times_float n lit_0_002) \<le> n" by (simp only: of_int_le_iff)
  show "1 \<le> 10 + py_int (int_times_float n lit_0_002)"
    using int_times_float_range(1)[OF n1 c(1)] by simp
qed

subsection \<open>Thresholds and medals\<close>

lemma floor_frac:
  fixes n d t :: int
  shows "\<lfloor>of_int t / of_int d * (of_int n :: rat)\<rfloor> = (t * n) div d"
proof -
  have "of_int t / of_int d * (of_int n :: rat) = of_int (t * n) / of_int d"
    by (simp only: of_int_mult times_divide_eq_left)
  then show ?thesis by (simp only: floor_divide_of_int_eq)
qed

lemma spec_positions_div:
  "spec_positions n =
     (if n < 100 then (max 1 (n div 10), max 1 (n div 5), max 1 (2 * n div 5))
      else if n < 250 then (10, max 1 (n div 5), max 1 (2 * n div 5))
      else if n < 1000 then (10 + n div 500, 50, 100)
      else (10 + n div 500, max 1 (n div 20), max 1 (n div 10)))"
proof -
  have a: "\<lfloor>(10 / 100 :: rat) * of_int n\<rfloor> = n div 10"
    using floor_frac[of 1 10 n] by simp
  have b: "\<lfloor>(20 / 100 :: rat) * of_int n\<rfloor> = n div 5"
    using floor_frac[of 1 5 n] by simp
  have c: "\<lfloor>(40 / 100 :: rat) * of_int n\<rfloor> = 2 * n div 5"
    using floor_frac[of 2 5 n] by simp
  have d: "\<lfloor>(5 / 100 :: rat) * of_int n\<rfloor> = n div 20"
    using floor_frac[of 1 20 n] by simp
  have e: "\<lfloor>(2 / 1000 :: rat) * of_int n\<rfloor> = n div 500"
    using floor_frac[of 1 500 n] by simp
  show ?thesis unfolding spec_positions_def a b c d e by (rule refl)
qed

lemma medal_positions_div:
  assumes "1 \<le> n" "n < 2 ^ 52"
  shows "medal_positions n =
     Inr (if n < 100 then (max 1 (n div 10), max 1 (n div 5), max 1 (2 * n div 5))
          else if n < 250 then (10, max 1 (n div 5), max 1 (2 * n div 5))
          else if n < 1000 then (10 + n div 500, 50, 100)
          else (10 + n div 500, max 1 (n div 20), max 1 (n div 10)))"
proof (cases "n < 250")
  case True
  have n0: "0 \<le> n" using assms(1) by simp
  have n1: "n < 2 ^ 51" using True by simp
  note ev = int_0_1[OF n0 assms(2)] int_0_2[OF n0 assms(2)] int_0_4[OF n0 n1]
  show ?thesis using assms(1) True unfolding medal_positions_def ev by auto
next
  case False
  have n0: "0 \<le> n" using assms(1) by simp
  note ev = int_0_1[OF n0 assms(2)] int_0_05[OF n0 assms(2)] int_0_002[OF n0 assms(2)]
  have "medal_positions n =
      (if n < 1000 then Inr (10 + py_int (int_times_float n lit_0_002), 50, 100)
       else Inr (10 + py_int (int_times_float n lit_0_002),
                 max 1 (py_int (int_times_float n lit_0_05)),
                 max 1 (py_int (int_times_float n lit_0_1))))"
    using False unfolding medal_positions_def by auto
  then show ?thesis using False unfolding ev by auto
qed

lemma medal_positions_spec:
  assumes "1 \<le> n" "n < 2 ^ 52"
  shows "medal_positions n = Inr (spec_positions n)"
  unfolding medal_positions_div[OF assms] spec_positions_div by (rule refl)


lemma int_len_bound: "n < 2 ^ 52 \<Longrightarrow> int n < 2 ^ 52"
proof -
  assume "n < 2 ^ 52"
  then have "int n < int (2 ^ 52)" by (simp only: of_nat_less_iff)
  also have "int (2 ^ 52) = 2 ^ 52" by (simp only: of_nat_power of_nat_numeral)
  finally show ?thesis .
qed

lemma spec_positions_range:
  assumes "1 \<le> n" "spec_positions n = (g, s, b)"
  shows "1 \<le> g \<and> g \<le> n \<and> 1 \<le> s \<and> s \<le> n \<and> 1 \<le> b \<and> b \<le> n"
proof -
  consider "n < 100" | "100 \<le> n" "n < 250" | "250 \<le> n" "n < 1000" | "1000 \<le> n"
    by linarith
  then show ?thesis
  proof cases
    case 1
    then show ?thesis using assms unfolding spec_positions_div by (auto simp: max_def)
  next
    case 2
    then show ?thesis using assms unfolding spec_positions_div by (auto simp: max_def)
  next
    case 3
    then show ?thesis using assms unfolding spec_positions_div by auto
  next
    case 4
    then show ?thesis using assms unfolding spec_positions_div by (auto simp: max_def)
  qed
qed

lemma medal_positions_range:
  assumes "1 \<le> n"
  shows "\<exists>g s b. medal_positions n = Inr (g, s, b)
           \<and> 1 \<le> g \<and> g \<le> n \<and> 1 \<le> s \<and> s \<le> n \<and> 1 \<le> b \<and> b \<le> n"
proof -
  have l: "0 < lit_0_1" "lit_0_1 \<le> 1 / 2" "0 < lit_0_2" "lit_0_2 \<le> 1 / 2"
    "0 < lit_0_4" "lit_0_4 \<le> 1 / 2" "0 < lit_0_05" "lit_0_05 \<le> 1 / 2"
    by (simp_all add: lit_0_1_val lit_0_2_val lit_0_4_val lit_0_05_val)
  note p1 = position_le[OF assms l(1,2)] and p2 = position_le[OF assms l(3,4)]
    and p4 = position_le[OF assms l(5,6)] and p05 = position_le[OF assms l(7,8)]
  consider "n < 100" | "100 \<le> n" "n < 250" | "250 \<le> n" "n < 1000" | "1000 \<le> n"
    by linarith
  then show ?thesis
  proof cases
    case 1
    then have "medal_positions n =
        Inr (max 1 (py_int (int_times_float n lit_0_1)),
             max 1 (py_int (int_times_float n lit_0_2)),
             max 1 (py_int (int_times_float n lit_0_4)))"
      using assms by (simp add: medal_positions_def)
    then show ?thesis using p1 p2 p4 by blast
  next
    case 2
    then have "medal_positions n =
        Inr (10, max 1 (py_int (int_times_float n lit_0_2)),
             max 1 (py_int (int_times_float n lit_0_4)))"
      by (simp add: medal_positions_def)
    moreover have "(1::int) \<le> 10" "10 \<le> n" using 2 by simp_all
    ultimately show ?thesis using p2 p4 by blast
  next
    case 3
    then have "medal_positions n = Inr (10 + py_int (int_times_float n lit_0_002), 50, 100)"
      by (simp add: medal_positions_def)
    moreover have "(1::int) \<le> 50" "50 \<le> n" "(1::int) \<le> 100" "100 \<le> n" using 3 by simp_all
    ultimately show ?thesis using gold_position_le[OF 3(1)] by blast
  next
    case 4
    then have "medal_positions n =
        Inr (10 + py_int (int_times_float n lit_0_002),
             max 1 (py_int (int_times_float n lit_0_05)),
             max 1 (py_int (int_times_float n lit_0_1)))"
      by (simp add: medal_positions_def)
    moreover have "250 \<le> n" using 4 by simp
    ultimately show ?thesis using gold_position_le p05 p1 by blast
  qed
qed

lemma get_score_at_position_ok:
  assumes "1 \<le> p" "p \<le> int (length scores)"
  shows "get_score_at_position scores p = Inr (scores ! nat (p - 1))"
  using assms by (simp add: get_score_at_position_def iloc_def)

text \<open>The median is a double, which \<open>float(x)\<close> leaves as it is.\<close>

lemma median_double:
  assumes "median xs = Some m"
  shows "to_double m = m"
proof -
  define s where "s = sort (map to_double xs)"
  define n where "n = length s"
  have n0: "n \<noteq> 0"
    using assms unfolding median_def Let_def s_def[symmetric] n_def[symmetric]
    by (auto split: if_splits)
  show ?thesis
  proof (cases "odd n")
    case True
    then have m: "m = s ! (n div 2)"
      using assms n0 unfolding median_def Let_def s_def[symmetric] n_def[symmetric] by simp
    have "n div 2 < length s" using n0 unfolding n_def by simp
    then have "s ! (n div 2) \<in> set s" by (rule nth_mem)
    then obtain x where "s ! (n div 2) = to_double x" unfolding s_def by auto
    then show ?thesis unfolding m by (simp only: to_double_idem)
  next
    case False
    then have "m = to_double (to_double (s ! (n div 2 - 1) + s ! (n div 2)) / 2)"
      using assms n0 unfolding median_def Let_def s_def[symmetric] n_def[symmetric] by simp
    then show ?thesis by (simp only: to_double_idem)
  qed
qed

lemma median_float: "map_option to_double (median xs) = median xs"
proof (cases "median xs")
  case None then show ?thesis by simp
next
  case (Some m) then show ?thesis using median_double[OF Some] by simp
qed

lemma get_thresholds_ok:
  assumes mp: "medal_positions (int (length scores)) = Inr (g, s, b)"
    and r: "1 \<le> g" "g \<le> int (length scores)" "1 \<le> s" "s \<le> int (length scores)"
      "1 \<le> b" "b \<le> int (length scores)"
  shows "get_thresholds scores (int (length scores)) =
     Inr (to_double (scores ! nat (g - 1)), to_double (scores ! nat (s - 1)),
          to_double (scores ! nat (b - 1)), median scores)"
  unfolding get_thresholds_def mp
  by (simp add: get_score_at_position_ok[OF r(1,2)] get_score_at_position_ok[OF r(3,4)]
      get_score_at_position_ok[OF r(5,6)] median_float)

lemma positions_nonempty:
  assumes "scores \<noteq> []"
  shows "\<exists>g s b. medal_positions (int (length scores)) = Inr (g, s, b)
           \<and> 1 \<le> g \<and> g \<le> int (length scores)
           \<and> 1 \<le> s \<and> s \<le> int (length scores)
           \<and> 1 \<le> b \<and> b \<le> int (length scores)"
proof -
  have "1 \<le> int (length scores)" using assms by (cases scores) simp_all
  then show ?thesis by (rule medal_positions_range)
qed

lemma is_lower_better_ok:
  assumes "scores \<noteq> []"
  shows "is_lower_better (ScoreColumn scores) = Inr (hd scores < last scores)"
proof -
  have l: "0 < length scores" "1 \<le> int (length scores)"
    using assms by (cases scores; simp)+
  have a: "iloc scores 0 = Inr (hd scores)"
    using assms l by (simp add: iloc_def hd_conv_nth)
  have n: "nat (int (length scores) + - 1) = length scores - 1" by simp
  have b: "iloc scores (- 1) = Inr (last scores)"
    unfolding iloc_def n using assms l by (simp add: last_conv_nth)
  show ?thesis by (simp add: a b)
qed

lemma median_nonempty:
  assumes "scores \<noteq> []"
  shows "\<exists>m. median scores = Some m"
proof -
  have l: "(length (sort (map to_double scores)) = 0) = False"
    using assms by (simp del: sort_key_simps)
  show ?thesis unfolding median_def Let_def l if_False
    by (cases "odd (length (sort (map to_double scores)))")
      (simp_all only: if_True if_False option.inject ex_simps simp_thms)
qed

lemma sorted_hd_le_last:
  assumes "sorted xs" "xs \<noteq> []"
  shows "hd xs \<le> (last xs :: rat)"
proof -
  have "xs ! 0 \<le> xs ! (length xs - 1)"
    using assms by (intro sorted_nth_mono) simp_all
  then show ?thesis using assms(2) by (simp add: hd_conv_nth last_conv_nth)
qed

text \<open>The median of a column has at least half of the scores on either side.\<close>

lemma count_le_sorted:
  fixes s :: "rat list"
  assumes "sorted s" "k < length s" "s ! k \<le> m"
  shows "k + 1 \<le> length (filter (\<lambda>x. x \<le> m) s)"
proof -
  have "{i. i \<le> k} \<subseteq> {i. i < length s \<and> s ! i \<le> m}"
  proof
    fix i assume "i \<in> {i. i \<le> k}"
    then have i: "i \<le> k" by simp
    then have "s ! i \<le> s ! k" using assms(1,2) by (simp add: sorted_nth_mono)
    then show "i \<in> {i. i < length s \<and> s ! i \<le> m}" using i assms(2,3) by simp
  qed
  then have "card {i. i \<le> k} \<le> card {i. i < length s \<and> s ! i \<le> m}"
    by (intro card_mono) simp_all
  moreover have "card {i. i \<le> k} = k + 1"
    using card_atMost[of k] by (simp add: atMost_def)
  ultimately show ?thesis by (simp add: length_filter_conv_card)
qed

lemma count_ge_sorted:
  fixes s :: "rat list"
  assumes "sorted s" "k < length s" "m \<le> s ! k"
  shows "length s - k \<le> length (filter (\<lambda>x. m \<le> x) s)"
proof -
  have "{k..<length s} \<subseteq> {i. i < length s \<and> m \<le> s ! i}"
  proof
    fix i assume "i \<in> {k..<length s}"
    then have i: "k \<le> i" "i < length s" by simp_all
    then have "s ! k \<le> s ! i" using assms(1) by (simp add: sorted_nth_mono)
    then show "i \<in> {i. i < length s \<and> m \<le> s ! i}" using i assms(3) by simp
  qed
  then have "card {k..<length s} \<le> card {i. i < length s \<and> m \<le> s ! i}"
    by (intro card_mono) simp_all
  then show ?thesis by (simp add: length_filter_conv_card)
qed

lemma length_filter_sort:
  "length (filter P (sort xs)) = length (filter P (xs :: rat list))"
  by (simp add: filter_sort)

lemma median_is_middle:
  assumes "median xs = Some m"
  shows "length xs \<le> 2 * length (filter (\<lambda>x. to_double x \<le> m) xs)
       \<and> length xs \<le> 2 * length (filter (\<lambda>x. m \<le> to_double x) xs)"
proof -
  define s where "s = sort (map to_double xs)"
  define n where "n = length s"
  have srt: "sorted s" unfolding s_def by simp
  have len: "length xs = n" unfolding n_def s_def by simp
  have n0: "n \<noteq> 0"
    using assms unfolding median_def Let_def s_def[symmetric] n_def[symmetric]
    by (auto split: if_splits)
  have fa: "length (filter (\<lambda>x. to_double x \<le> m) xs) = length (filter (\<lambda>x. x \<le> m) s)"
    unfolding s_def length_filter_sort by (simp add: filter_map comp_def)
  have fb: "length (filter (\<lambda>x. m \<le> to_double x) xs) = length (filter (\<lambda>x. m \<le> x) s)"
    unfolding s_def length_filter_sort by (simp add: filter_map comp_def)
  have dbl: "to_double (s ! k) = s ! k" if "k < length s" for k
  proof -
    have "s ! k \<in> set s" using that by (rule nth_mem)
    then obtain x where "s ! k = to_double x" unfolding s_def by auto
    then show ?thesis by (simp only: to_double_idem)
  qed
  show ?thesis
  proof (cases "odd n")
    case True
    then have m: "m = s ! (n div 2)"
      using assms n0 unfolding median_def Let_def s_def[symmetric] n_def[symmetric] by simp
    have k: "n div 2 < length s" using n0 unfolding n_def by simp
    have a: "n div 2 + 1 \<le> length (filter (\<lambda>x. x \<le> m) s)"
      using count_le_sorted[OF srt k] m by simp
    have b: "length s - n div 2 \<le> length (filter (\<lambda>x. m \<le> x) s)"
      using count_ge_sorted[OF srt k] m by simp
    show ?thesis unfolding fa fb len using a b True unfolding n_def[symmetric] by presburger
  next
    case False
    then have m: "m = to_double (to_double (s ! (n div 2 - 1) + s ! (n div 2)) / 2)"
      using assms n0 unfolding median_def Let_def s_def[symmetric] n_def[symmetric] by simp
    have k: "n div 2 < length s" and k1: "n div 2 - 1 < length s" and kpos: "1 \<le> n div 2"
      using n0 False unfolding n_def by presburger+
    have le: "s ! (n div 2 - 1) \<le> s ! (n div 2)"
      using srt k by (simp add: sorted_nth_mono)
    have lo: "s ! (n div 2 - 1) \<le> m" and hi: "m \<le> s ! (n div 2)"
      unfolding m using mean_between[OF le dbl[OF k1] dbl[OF k]] by simp_all
    have a: "n div 2 - 1 + 1 \<le> length (filter (\<lambda>x. x \<le> m) s)"
      using count_le_sorted[OF srt k1 lo] .
    have b: "length s - n div 2 \<le> length (filter (\<lambda>x. m \<le> x) s)"
      using count_ge_sorted[OF srt k hi] .
    show ?thesis unfolding fa fb len using a b False kpos unfolding n_def[symmetric] by presburger
  qed
qed

text \<open>In a column of floats the conversion changes no cell.\<close>

lemma floats_nth:
  assumes "floats scores" "1 \<le> p" "p \<le> int (length scores)"
  shows "to_double (scores ! nat (p - 1)) = scores ! nat (p - 1)"
proof -
  have "nat (p - 1) < length scores" using assms(2,3) by simp
  then have "scores ! nat (p - 1) \<in> set scores" by (rule nth_mem)
  then show ?thesis using assms(1) unfolding floats_def list_all_iff by blast
qed

lemma rank_score_ok:
  assumes "scores \<noteq> []"
    and mp: "medal_positions (int (length scores)) = Inr (g, s, b)"
    and r: "1 \<le> g" "g \<le> int (length scores)" "1 \<le> s" "s \<le> int (length scores)"
      "1 \<le> b" "b \<le> int (length scores)"
  shows "rank_score score (ScoreColumn scores) =
     (case score of
        ScoreNone \<Rightarrow>
          Inr \<lparr>gold_medal = False, silver_medal = False, bronze_medal = False,
               above_median = False, gold_threshold = to_double (scores ! nat (g - 1)),
               silver_threshold = to_double (scores ! nat (s - 1)),
               bronze_threshold = to_double (scores ! nat (b - 1)),
               median_threshold = median scores\<rparr>
      | ScoreOther ty \<Rightarrow>
          Inl (Exn AssertionError
                (''Expected `score` to be a `float` or `int` but got a '' @ ty @ ''.''))
      | ScoreNum x \<Rightarrow>
          Inr (classify (hd scores < last scores) x
                 (to_double (scores ! nat (g - 1)), to_double (scores ! nat (s - 1)),
                  to_double (scores ! nat (b - 1)), median scores)))"
  unfolding rank_score_def
  by (simp only: leaderboard.case is_lower_better_ok[OF assms(1)] sum.case
      get_thresholds_ok[OF mp r] prod.case)

text \<open>
  Claim C8. On an empty leaderboard \<open>rank_score\<close> raises, whatever the score argument:
  the first read of \<open>is_lower_better\<close>, \<open>scores.iloc[0]\<close>, is out of bounds, and the
  \<open>IndexError\<close> reaches the caller; no result is returned.
\<close>
theorem rank_score_empty_raises:
  "rank_score score (ScoreColumn []) =
     Inl (Exn IndexError ''single positional indexer is out-of-bounds'')"
  by (simp add: rank_score_def iloc_def)

text \<open>
  Claim C1, amended. On a leaderboard of \<open>n \<ge> 1\<close> rows, fewer than \<open>2\<^sup>5\<^sup>2\<close>, and
  for a score that is \<open>None\<close> or a number, \<open>rank_score\<close> returns, and the gold, silver
  and bronze thresholds are \<open>float(x)\<close> of the scores \<open>x\<close> at the 1-based positions of
  the size bands of the specification, \<open>spec_positions\<close>: the score itself in a column
  of floats, the nearest double for an integer score. The median threshold is the median
  of all scores as floats, in every band: the middle value of the sorted column, or the
  float mean of the two middle values, with at least half of the scores on either side
  of it.
\<close>
theorem rank_score_thresholds:
  assumes "scores \<noteq> []" "length scores < 2 ^ 52" "\<not> is_other score"
    and "spec_positions (int (length scores)) = (g, s, b)"
  shows "\<exists>r. rank_score score (ScoreColumn scores) = Inr r
           \<and> gold_threshold r = to_double (scores ! nat (g - 1))
           \<and> silver_threshold r = to_double (scores ! nat (s - 1))
           \<and> bronze_threshold r = to_double (scores ! nat (b - 1))
           \<and> (floats scores \<longrightarrow>
                  gold_threshold r = scores ! nat (g - 1)
                  \<and> silver_threshold r = scores ! nat (s - 1)
                  \<and> bronze_threshold r = scores ! nat (b - 1))
           \<and> median_threshold r = median scores
           \<and> (\<exists>m. median scores = Some m
                  \<and> length scores \<le> 2 * length (filter (\<lambda>x. to_double x \<le> m) scores)
                  \<and> length scores \<le> 2 * length (filter (\<lambda>x. m \<le> to_double x) scores))"
proof -
  obtain m where m: "median scores = Some m" using median_nonempty[OF assms(1)] by blast
  have mid: "\<exists>m. median scores = Some m
                  \<and> length scores \<le> 2 * length (filter (\<lambda>x. to_double x \<le> m) scores)
                  \<and> length scores \<le> 2 * length (filter (\<lambda>x. m \<le> to_double x) scores)"
    using m median_is_middle[OF m] by blast
  have n1: "1 \<le> int (length scores)" using assms(1) by (cases scores) simp_all
  have n2: "int (length scores) < 2 ^ 52" using assms(2) by (rule int_len_bound)
  have mp: "medal_positions (int (length scores)) = Inr (g, s, b)"
    using medal_positions_spec[OF n1 n2] assms(4) by simp
  from spec_positions_range[OF n1 assms(4)]
  have r: "1 \<le> g" "g \<le> int (length scores)" "1 \<le> s" "s \<le> int (length scores)"
    "1 \<le> b" "b \<le> int (length scores)" by simp_all
  have fl: "floats scores \<longrightarrow>
      to_double (scores ! nat (g - 1)) = scores ! nat (g - 1)
      \<and> to_double (scores ! nat (s - 1)) = scores ! nat (s - 1)
      \<and> to_double (scores ! nat (b - 1)) = scores ! nat (b - 1)"
    using floats_nth[OF _ r(1,2)] floats_nth[OF _ r(3,4)] floats_nth[OF _ r(5,6)] by blast
  show ?thesis
    using assms(3) mid fl unfolding rank_score_ok[OF assms(1) mp r]
    by (cases score) (simp_all add: classify_def Let_def)
qed

text \<open>
  From \<open>2\<^sup>5\<^sup>2\<close> rows on the float product may round up to the next integer: for
  \<open>num_teams = 7290729711424729\<close>, \<open>int(num_teams * 0.1)\<close> is one more than the exact
  floor.
\<close>
lemma medal_positions_large:
  "medal_positions 7290729711424729 = Inr (14581459422859, 364536485571236, 729072971142473)"
  "spec_positions 7290729711424729 = (14581459422859, 364536485571236, 729072971142472)"
  by code_simp+

text \<open>
  Claim C1 as stated fails on the three-row leaderboard of integer scores
  \<open>9007199254740993, 5, 1\<close>: all three positions are 1, and the gold threshold returned
  is \<open>float(9007199254740993) = 9007199254740992.0\<close>, not the score at position 1.
\<close>
theorem rank_score_thresholds_counterexample:
  "map_sum id gold_threshold
     (rank_score ScoreNone (ScoreColumn [9007199254740993, 5, 1]))
     = Inr 9007199254740992
   \<and> spec_positions (int (length [9007199254740993, 5, 1 :: rat])) = (1, 1, 1)
   \<and> [9007199254740993, 5, 1 :: rat] ! nat (1 - 1) = 9007199254740993"
proof -
  define scores :: "rat list" where "scores = [9007199254740993, 5, 1]"
  have ilen: "int (length scores) = 3" unfolding scores_def by simp
  have ne: "scores \<noteq> []" unfolding scores_def by simp
  have mp: "medal_positions (int (length scores)) = Inr (1, 1, 1)"
    unfolding ilen by code_simp
  have r: "(1::int) \<le> 1" "1 \<le> int (length scores)" unfolding ilen by simp_all
  have t: "to_double (scores ! nat (1 - 1)) = 9007199254740992"
    unfolding scores_def by code_simp
  have a: "map_sum id gold_threshold (rank_score ScoreNone (ScoreColumn scores))
      = Inr 9007199254740992"
    unfolding rank_score_ok[OF ne mp r r r]
    by (simp only: pyscore.case map_sum.simps rank_result.select_convs t id_apply)
  have c: "spec_positions (int (length scores)) = (1, 1, 1)"
    unfolding ilen by code_simp
  have d: "scores ! nat (1 - 1) = 9007199254740993" unfolding scores_def by simp
  show ?thesis using a c d unfolding scores_def by blast
qed

text \<open>
  Claim C2. For a numeric score on a leaderboard of \<open>n \<ge> 1\<close> rows, \<open>rank_score\<close>
  returns the thresholds of \<open>get_thresholds\<close> on that leaderboard, the floats of the
  scores at the three medal positions and the median, and classifies the score against
  them in priority order, with \<open>\<le>\<close> when lower is better, that is when the first score
  of the leaderboard is less than the last, and \<open>\<ge>\<close> otherwise: gold iff the score
  meets or beats the gold threshold, silver iff not gold and it meets or beats the silver
  threshold, bronze iff neither and it meets or beats the bronze threshold;
  \<open>above_median\<close> is the strict comparison with the median, whatever the medals are.
\<close>
theorem rank_score_medals:
  assumes "scores \<noteq> []"
  shows "\<exists>r g s b m.
           rank_score (ScoreNum x) (ScoreColumn scores) = Inr r
           \<and> is_lower_better (ScoreColumn scores) = Inr (hd scores < last scores)
           \<and> medal_positions (int (length scores)) = Inr (g, s, b)
           \<and> median scores = Some m
           \<and> get_thresholds scores (int (length scores)) =
                 Inr (to_double (scores ! nat (g - 1)), to_double (scores ! nat (s - 1)),
                      to_double (scores ! nat (b - 1)), Some m)
           \<and> gold_threshold r = to_double (scores ! nat (g - 1))
           \<and> silver_threshold r = to_double (scores ! nat (s - 1))
           \<and> bronze_threshold r = to_double (scores ! nat (b - 1))
           \<and> median_threshold r = Some m
           \<and> gold_medal r =
                 (if hd scores < last scores then x \<le> to_double (scores ! nat (g - 1))
                  else x \<ge> to_double (scores ! nat (g - 1)))
           \<and> silver_medal r = (\<not> gold_medal r
                \<and> (if hd scores < last scores then x \<le> to_double (scores ! nat (s - 1))
                    else x \<ge> to_double (scores ! nat (s - 1))))
           \<and> bronze_medal r = (\<not> gold_medal r \<and> \<not> silver_medal r
                \<and> (if hd scores < last scores then x \<le> to_double (scores ! nat (b - 1))
                    else x \<ge> to_double (scores ! nat (b - 1))))
           \<and> above_median r = (if hd scores < last scores then x < m else x > m)"
proof -
  from positions_nonempty[OF assms] obtain g s b
    where mp: "medal_positions (int (length scores)) = Inr (g, s, b)"
      and r: "1 \<le> g" "g \<le> int (length scores)" "1 \<le> s" "s \<le> int (length scores)"
        "1 \<le> b" "b \<le> int (length scores)"
    by blast
  obtain m where m: "median scores = Some m" using median_nonempty[OF assms] by blast
  define c where "c = classify (hd scores < last scores) x
      (to_double (scores ! nat (g - 1)), to_double (scores ! nat (s - 1)),
       to_double (scores ! nat (b - 1)), Some m)"
  have rs: "rank_score (ScoreNum x) (ScoreColumn scores) = Inr c"
    unfolding rank_score_ok[OF assms mp r] m c_def by simp
  have gt: "get_thresholds scores (int (length scores)) =
      Inr (to_double (scores ! nat (g - 1)), to_double (scores ! nat (s - 1)),
           to_double (scores ! nat (b - 1)), Some m)"
    unfolding get_thresholds_ok[OF mp r] m by (rule refl)
  have f: "gold_threshold c = to_double (scores ! nat (g - 1))"
    "silver_threshold c = to_double (scores ! nat (s - 1))"
    "bronze_threshold c = to_double (scores ! nat (b - 1))"
    "median_threshold c = Some m"
    "gold_medal c =
       (if hd scores < last scores then x \<le> to_double (scores ! nat (g - 1))
        else x \<ge> to_double (scores ! nat (g - 1)))"
    "silver_medal c = (\<not> gold_medal c
       \<and> (if hd scores < last scores then x \<le> to_double (scores ! nat (s - 1))
           else x \<ge> to_double (scores ! nat (s - 1))))"
    "bronze_medal c = (\<not> gold_medal c \<and> \<not> silver_medal c
       \<and> (if hd scores < last scores then x \<le> to_double (scores ! nat (b - 1))
           else x \<ge> to_double (scores ! nat (b - 1))))"
    "above_median c = (if hd scores < last scores then x < m else x > m)"
    unfolding c_def by (simp_all add: classify_def Let_def lt_float_def gt_float_def)
  show ?thesis
    using rs is_lower_better_ok[OF assms] mp m gt f by blast
qed

text \<open>
  Claim C7. With \<open>score = None\<close> on a leaderboard of \<open>n \<ge> 1\<close> rows, the four boolean
  fields are false, the median threshold is a number, and the four thresholds are those
  returned for any numeric score on the same leaderboard.
\<close>
theorem rank_score_none:
  assumes "scores \<noteq> []"
  shows "\<exists>r0. rank_score ScoreNone (ScoreColumn scores) = Inr r0
           \<and> \<not> gold_medal r0 \<and> \<not> silver_medal r0 \<and> \<not> bronze_medal r0 \<and> \<not> above_median r0
           \<and> median_threshold r0 \<noteq> None
           \<and> (\<forall>x. \<exists>r. rank_score (ScoreNum x) (ScoreColumn scores) = Inr r
                  \<and> gold_threshold r = gold_threshold r0
                  \<and> silver_threshold r = silver_threshold r0
                  \<and> bronze_threshold r = bronze_threshold r0
                  \<and> median_threshold r = median_threshold r0)"
proof -
  from positions_nonempty[OF assms] obtain g s b
    where mp: "medal_positions (int (length scores)) = Inr (g, s, b)"
      and r: "1 \<le> g" "g \<le> int (length scores)" "1 \<le> s" "s \<le> int (length scores)"
        "1 \<le> b" "b \<le> int (length scores)"
    by blast
  obtain m where m: "median scores = Some m" using median_nonempty[OF assms] by blast
  show ?thesis
    unfolding rank_score_ok[OF assms mp r] m
    by (simp add: classify_def Let_def)
qed

text \<open>
  Claim C10. On a leaderboard of \<open>n \<ge> 1\<close> rows, the three positions that
  \<open>get_thresholds\<close> requests lie in \<open>[1, n]\<close> in every size band, and \<open>rank_score\<close>
  raises no \<open>IndexError\<close>.
\<close>
theorem positions_in_range:
  assumes "scores \<noteq> []"
  shows "\<exists>g s b. medal_positions (int (length scores)) = Inr (g, s, b)
           \<and> 1 \<le> g \<and> g \<le> int (length scores)
           \<and> 1 \<le> s \<and> s \<le> int (length scores)
           \<and> 1 \<le> b \<and> b \<le> int (length scores)
           \<and> (\<forall>msg. rank_score score (ScoreColumn scores) \<noteq> Inl (Exn IndexError msg))"
proof -
  from positions_nonempty[OF assms] obtain g s b
    where mp: "medal_positions (int (length scores)) = Inr (g, s, b)"
      and r: "1 \<le> g" "g \<le> int (length scores)" "1 \<le> s" "s \<le> int (length scores)"
        "1 \<le> b" "b \<le> int (length scores)"
    by blast
  have "\<forall>msg. rank_score score (ScoreColumn scores) \<noteq> Inl (Exn IndexError msg)"
    unfolding rank_score_ok[OF assms mp r] by (cases score) simp_all
  then show ?thesis using mp r by blast
qed

text \<open>
  Claim C6, amended. On a non-empty leaderboard \<open>is_lower_better\<close> returns true iff the
  first score is strictly less than the last one; it returns false on a leaderboard sorted
  descending, and true on one sorted ascending whose first and last scores differ.
\<close>
theorem is_lower_better_direction:
  assumes "scores \<noteq> []"
  shows "is_lower_better (ScoreColumn scores) = Inr (hd scores < last scores)
         \<and> (sorted (rev scores) \<longrightarrow> is_lower_better (ScoreColumn scores) = Inr False)
         \<and> (sorted scores \<and> hd scores \<noteq> last scores
              \<longrightarrow> is_lower_better (ScoreColumn scores) = Inr True)"
proof -
  have a: "sorted (rev scores) \<Longrightarrow> \<not> hd scores < last scores"
    using sorted_hd_le_last[of "rev scores"] assms by (simp add: hd_rev last_rev)
  have b: "sorted scores \<Longrightarrow> hd scores \<noteq> last scores \<Longrightarrow> hd scores < last scores"
    using sorted_hd_le_last[of scores] assms by simp
  show ?thesis unfolding is_lower_better_ok[OF assms] using a b by simp
qed

text \<open>
  Claim C6 as stated fails on a single-row leaderboard, which is sorted ascending and for
  which \<open>is_lower_better\<close> returns false.
\<close>
theorem is_lower_better_singleton_counterexample:
  "\<not> (sorted [5 :: rat] \<longrightarrow> is_lower_better (ScoreColumn [5]) = Inr True)"
  by (simp add: iloc_def)

text \<open>
  The examples of the specification: with 50 rows the thresholds are at ranks 5, 10 and
  20; with 150 rows the gold threshold is at rank 10.
\<close>
lemma medal_positions_examples:
  "medal_positions 50 = Inr (5, 10, 20)"
  "medal_positions 150 = Inr (10, 30, 60)"
  "medal_positions 999 = Inr (11, 50, 100)"
  "medal_positions 2000 = Inr (14, 100, 200)"
  "spec_positions 50 = (5, 10, 20)"
  by code_simp+

theorem rank_score_thresholds_witness:
  "[9, 8, 7, 6, 5, 4, 3, 2, 1, 0 :: rat] \<noteq> []
   \<and> length [9, 8, 7, 6, 5, 4, 3, 2, 1, 0 :: rat] < 2 ^ 52
   \<and> \<not> is_other (ScoreNum 7)
   \<and> spec_positions (int (length [9, 8, 7, 6, 5, 4, 3, 2, 1, 0 :: rat])) = (1, 2, 4)
   \<and> (\<exists>r. rank_score (ScoreNum 7) (ScoreColumn [9, 8, 7, 6, 5, 4, 3, 2, 1, 0]) = Inr r
          \<and> gold_threshold r = 9 \<and> silver_threshold r = 8 \<and> bronze_threshold r = 6
          \<and> median_threshold r = Some (9 / 2))"
proof -
  have h1: "[9, 8, 7, 6, 5, 4, 3, 2, 1, 0 :: rat] \<noteq> []" by simp
  have h2: "length [9, 8, 7, 6, 5, 4, 3, 2, 1, 0 :: rat] < 2 ^ 52" by simp
  have h3: "\<not> is_other (ScoreNum 7)" by simp
  have h4: "spec_positions (int (length [9, 8, 7, 6, 5, 4, 3, 2, 1, 0 :: rat])) = (1, 2, 4)"
    by code_simp
  have m: "median [9, 8, 7, 6, 5, 4, 3, 2, 1, 0 :: rat] = Some (9 / 2)" by code_simp
  have d: "to_double 9 = 9" "to_double 8 = 8" "to_double 6 = 6" by code_simp+
  from rank_score_thresholds[OF h1 h2 h3 h4]
  obtain r where r: "rank_score (ScoreNum 7) (ScoreColumn [9, 8, 7, 6, 5, 4, 3, 2, 1, 0]) = Inr r"
    and t: "gold_threshold r = to_double ([9, 8, 7, 6, 5, 4, 3, 2, 1, 0] ! nat (1 - 1))"
      "silver_threshold r = to_double ([9, 8, 7, 6, 5, 4, 3, 2, 1, 0] ! nat (2 - 1))"
      "bronze_threshold r = to_double ([9, 8, 7, 6, 5, 4, 3, 2, 1, 0] ! nat (4 - 1))"
      "median_threshold r = median [9, 8, 7, 6, 5, 4, 3, 2, 1, 0]"
    by blast
  have v: "gold_threshold r = 9" "silver_threshold r = 8" "bronze_threshold r = 6"
    "median_threshold r = Some (9 / 2)"
    using t by (simp_all add: m d)
  show ?thesis using h1 h2 h3 h4 r v by blast
qed

theorem rank_score_medals_witness:
  "[9, 8, 7, 6, 5, 4, 3, 2, 1, 0 :: rat] \<noteq> []
   \<and> (\<exists>r. rank_score (ScoreNum 7) (ScoreColumn [9, 8, 7, 6, 5, 4, 3, 2, 1, 0]) = Inr r
          \<and> gold_threshold r = 9 \<and> silver_threshold r = 8 \<and> bronze_threshold r = 6
          \<and> median_threshold r = Some (9 / 2)
          \<and> gold_medal r = False \<and> silver_medal r = False \<and> bronze_medal r = True
          \<and> above_median r = True)"
proof -
  have h1: "[9, 8, 7, 6, 5, 4, 3, 2, 1, 0 :: rat] \<noteq> []" by simp
  have p: "medal_positions (int (length [9, 8, 7, 6, 5, 4, 3, 2, 1, 0 :: rat])) = Inr (1, 2, 4)"
    by code_simp
  have m: "median [9, 8, 7, 6, 5, 4, 3, 2, 1, 0 :: rat] = Some (9 / 2)" by code_simp
  have d: "to_double 9 = 9" "to_double 8 = 8" "to_double 6 = 6" by code_simp+
  have l: "(hd [9, 8, 7, 6, 5, 4, 3, 2, 1, 0 :: rat] < last [9, 8, 7, 6, 5, 4, 3, 2, 1, 0]) = False"
    by simp
  from rank_score_medals[OF h1, of 7]
  obtain r g s b m'
    where r: "rank_score (ScoreNum 7) (ScoreColumn [9, 8, 7, 6, 5, 4, 3, 2, 1, 0]) = Inr r"
      and mp: "medal_positions (int (length [9, 8, 7, 6, 5, 4, 3, 2, 1, 0 :: rat])) = Inr (g, s, b)"
      and md: "median [9, 8, 7, 6, 5, 4, 3, 2, 1, 0 :: rat] = Some m'"
      and t: "gold_threshold r = to_double ([9, 8, 7, 6, 5, 4, 3, 2, 1, 0] ! nat (g - 1))"
        "silver_threshold r = to_double ([9, 8, 7, 6, 5, 4, 3, 2, 1, 0] ! nat (s - 1))"
        "bronze_threshold r = to_double ([9, 8, 7, 6, 5, 4, 3, 2, 1, 0] ! nat (b - 1))"
        "median_threshold r = Some m'"
      and f: "gold_medal r =
          (if hd [9, 8, 7, 6, 5, 4, 3, 2, 1, 0 :: rat] < last [9, 8, 7, 6, 5, 4, 3, 2, 1, 0]
           then 7 \<le> to_double ([9, 8, 7, 6, 5, 4, 3, 2, 1, 0] ! nat (g - 1))
           else 7 \<ge> to_double ([9, 8, 7, 6, 5, 4, 3, 2, 1, 0] ! nat (g - 1)))"
        "silver_medal r = (\<not> gold_medal r
           \<and> (if hd [9, 8, 7, 6, 5, 4, 3, 2, 1, 0 :: rat] < last [9, 8, 7, 6, 5, 4, 3, 2, 1, 0]
               then 7 \<le> to_double ([9, 8, 7, 6, 5, 4, 3, 2, 1, 0] ! nat (s - 1))
               else 7 \<ge> to_double ([9, 8, 7, 6, 5, 4, 3, 2, 1, 0] ! nat (s - 1))))"
        "bronze_medal r = (\<not> gold_medal r \<and> \<not> silver_medal r
           \<and> (if hd [9, 8, 7, 6, 5, 4, 3, 2, 1, 0 :: rat] < last [9, 8, 7, 6, 5, 4, 3, 2, 1, 0]
               then 7 \<le> to_double ([9, 8, 7, 6, 5, 4, 3, 2, 1, 0] ! nat (b - 1))
               else 7 \<ge> to_double ([9, 8, 7, 6, 5, 4, 3, 2, 1, 0] ! nat (b - 1))))"
        "above_median r =
          (if hd [9, 8, 7, 6, 5, 4, 3, 2, 1, 0 :: rat] < last [9, 8, 7, 6, 5, 4, 3, 2, 1, 0]
           then 7 < m' else 7 > m')"
    by blast
  have g: "g = 1" "s = 2" "b = 4" using mp unfolding p by simp_all
  have m': "m' = 9 / 2" using md unfolding m by simp
  have tv: "gold_threshold r = 9" "silver_threshold r = 8" "bronze_threshold r = 6"
    "median_threshold r = Some (9 / 2)"
    using t unfolding g m' by (simp_all add: d)
  have gm: "gold_medal r = False" using f(1) unfolding g l by (simp add: d)
  have sm: "silver_medal r = False" using f(2) unfolding g l gm by (simp add: d)
  have bm: "bronze_medal r = True" using f(3) unfolding g l gm sm by (simp add: d)
  have am: "above_median r = True" using f(4) unfolding l m' by simp
  show ?thesis using h1 r tv gm sm bm am by blast
qed

theorem rank_score_none_witness:
  "[9, 8, 7, 6, 5, 4, 3, 2, 1, 0 :: rat] \<noteq> []
   \<and> (\<exists>r0. rank_score ScoreNone (ScoreColumn [9, 8, 7, 6, 5, 4, 3, 2, 1, 0]) = Inr r0
         \<and> \<not> gold_medal r0 \<and> \<not> silver_medal r0 \<and> \<not> bronze_medal r0 \<and> \<not> above_median r0
         \<and> median_threshold r0 \<noteq> None
         \<and> (\<forall>x. \<exists>r. rank_score (ScoreNum x) (ScoreColumn [9, 8, 7, 6, 5, 4, 3, 2, 1, 0]) = Inr r
                \<and> gold_threshold r = gold_threshold r0
                \<and> silver_threshold r = silver_threshold r0
                \<and> bronze_threshold r = bronze_threshold r0
                \<and> median_threshold r = median_threshold r0))"
proof -
  have h1: "[9, 8, 7, 6, 5, 4, 3, 2, 1, 0 :: rat] \<noteq> []" by simp
  show ?thesis using h1 rank_score_none[OF h1] by simp
qed

theorem positions_in_range_witness:
  "[9, 8, 7, 6, 5, 4, 3, 2, 1, 0 :: rat] \<noteq> []
   \<and> (\<exists>g s b. medal_positions (int (length [9, 8, 7, 6, 5, 4, 3, 2, 1, 0 :: rat])) = Inr (g, s, b)
         \<and> 1 \<le> g \<and> g \<le> int (length [9, 8, 7, 6, 5, 4, 3, 2, 1, 0 :: rat])
         \<and> 1 \<le> s \<and> s \<le> int (length [9, 8, 7, 6, 5, 4, 3, 2, 1, 0 :: rat])
         \<and> 1 \<le> b \<and> b \<le> int (length [9, 8, 7, 6, 5, 4, 3, 2, 1, 0 :: rat])
         \<and> (\<forall>msg. rank_score ScoreNone (ScoreColumn [9, 8, 7, 6, 5, 4, 3, 2, 1, 0])
                \<noteq> Inl (Exn IndexError msg)))"
proof -
  have h1: "[9, 8, 7, 6, 5, 4, 3, 2, 1, 0 :: rat] \<noteq> []" by simp
  show ?thesis using h1 positions_in_range[OF h1, of ScoreNone] by blast
qed

theorem is_lower_better_direction_witness:
  "[1, 2, 3 :: rat] \<noteq> [] \<and> sorted [1, 2, 3 :: rat] \<and> hd [1, 2, 3 :: rat] \<noteq> last [1, 2, 3]
   \<and> is_lower_better (ScoreColumn [1, 2, 3]) = Inr True
   \<and> sorted (rev [3, 2, 1 :: rat]) \<and> is_lower_better (ScoreColumn [3, 2, 1]) = Inr False"
proof -
  have h1: "[1, 2, 3 :: rat] \<noteq> []" and h2: "[3, 2, 1 :: rat] \<noteq> []" by simp_all
  have s1: "sorted [1, 2, 3 :: rat]" and s2: "sorted (rev [3, 2, 1 :: rat])" by simp_all
  have d: "hd [1, 2, 3 :: rat] \<noteq> last [1, 2, 3]" by simp
  show ?thesis
    using h1 s1 s2 d is_lower_better_direction[OF h1] is_lower_better_direction[OF h2] by blast
qed

subsection \<open>Calling the scoring function\<close>

lemma grader_call_raise:
  assumes "call (grade_fn g) (kwargs gi) = Inl e"
  shows "grader_call g gi lg =
     (if exn_class e = InvalidSubmissionError then
        (Inr PyNone, lg @ [(WARNING, ''Invalid submission: '' @ exn_msg e)])
      else if is_Exception (exn_class e) then
        (case fn_info (grade_fn g) of
           Inl e' \<Rightarrow> (Inl e', lg)
         | Inr info \<Rightarrow>
             (Inr PyNone,
              lg @ [(ERROR, ''Unexpected error during grading: '' @ exn_msg e
                             @ ''. Check '' @ info)]))
      else (Inl e, lg))"
  unfolding grader_call_def assms by (simp only: sum.case)

lemma grader_call_return:
  assumes "call (grade_fn g) (kwargs gi) = Inr v"
  shows "grader_call g gi lg =
     (Inr (case v of
             PyFloat x \<Rightarrow> PyFloat (py_round x 5)
           | NpFloat64 x \<Rightarrow> NpFloat64 (np_round x 5)
           | _ \<Rightarrow> v), lg)"
  unfolding grader_call_def assms by (simp only: sum.case)

text \<open>
  Claim C3, amended. When the scoring function raises \<open>InvalidSubmissionError\<close>,
  \<open>Grader.__call__\<close> logs a warning and returns \<open>None\<close>. When it raises another
  exception derived from \<open>Exception\<close>, the call logs an error and returns \<open>None\<close>: the
  error names file and starting line of the function when both lookups succeed, the
  function's string when a lookup raises \<open>TypeError\<close>. An exception outside
  \<open>Exception\<close> propagates.
\<close>
theorem grader_call_absorbs:
  assumes "call (grade_fn g) (kwargs gi) = Inl e"
  shows "(exn_class e = InvalidSubmissionError \<longrightarrow>
            grader_call g gi lg =
              (Inr PyNone, lg @ [(WARNING, ''Invalid submission: '' @ exn_msg e)]))
       \<and> (exn_class e \<noteq> InvalidSubmissionError \<and> is_Exception (exn_class e) \<longrightarrow>
            (\<forall>fpath line. getfile (grade_fn g) = Inr fpath
                 \<and> getsourcelines (grade_fn g) = Inr line \<longrightarrow>
               grader_call g gi lg =
                 (Inr PyNone,
                  lg @ [(ERROR, ''Unexpected error during grading: '' @ exn_msg e
                                 @ ''. Check '' @ fpath @ '':'' @ str_nat line)]))
          \<and> (\<forall>e'. exn_class e' = TypeError
                 \<and> (getfile (grade_fn g) = Inl e'
                      \<or> (\<exists>fpath. getfile (grade_fn g) = Inr fpath
                            \<and> getsourcelines (grade_fn g) = Inl e')) \<longrightarrow>
               grader_call g gi lg =
                 (Inr PyNone,
                  lg @ [(ERROR, ''Unexpected error during grading: '' @ exn_msg e
                                 @ ''. Check '' @ fn_str (grade_fn g))])))
       \<and> (\<not> is_Exception (exn_class e) \<longrightarrow> grader_call g gi lg = (Inl e, lg))"
  unfolding grader_call_raise[OF assms]
  by (auto simp: fn_info_def)

text \<open>
  The inner handler catches \<open>TypeError\<close> only: another exception of the source lookup,
  such as the \<open>OSError\<close> of \<open>inspect.getsourcelines\<close>, leaves \<open>Grader.__call__\<close>.
\<close>
lemma grader_call_lookup_error_escapes:
  assumes "call (grade_fn g) (kwargs gi) = Inl e"
    and "exn_class e \<noteq> InvalidSubmissionError" "is_Exception (exn_class e)"
    and "getfile (grade_fn g) = Inr fpath" "getsourcelines (grade_fn g) = Inl e'"
    and "exn_class e' \<noteq> TypeError"
  shows "grader_call g gi lg = (Inl e', lg)"
  unfolding grader_call_raise[OF assms(1)] using assms(2-) by (simp add: fn_info_def)

theorem grader_call_absorbs_witness:
  "call (grade_fn (constant_grader (Inl (Exn InvalidSubmissionError ''bad''))))
      (kwargs empty_input) = Inl (Exn InvalidSubmissionError ''bad'')
   \<and> grader_call (constant_grader (Inl (Exn InvalidSubmissionError ''bad''))) empty_input []
       = (Inr PyNone, [(WARNING, ''Invalid submission: bad'')])
   \<and> call (grade_fn (constant_grader (Inl (Exn ValueError ''boom''))))
      (kwargs empty_input) = Inl (Exn ValueError ''boom'')
   \<and> grader_call (constant_grader (Inl (Exn ValueError ''boom''))) empty_input []
       = (Inr PyNone, [(ERROR, ''Unexpected error during grading: boom. Check grade.py:12'')])"
proof -
  have h1: "call (grade_fn (constant_grader (Inl (Exn InvalidSubmissionError ''bad''))))
      (kwargs empty_input) = Inl (Exn InvalidSubmissionError ''bad'')"
    by (simp add: constant_grader_def)
  have h2: "call (grade_fn (constant_grader (Inl (Exn ValueError ''boom''))))
      (kwargs empty_input) = Inl (Exn ValueError ''boom'')"
    by (simp add: constant_grader_def)
  have f: "getfile (grade_fn (constant_grader (Inl (Exn ValueError ''boom'')))) = Inr ''grade.py''
      \<and> getsourcelines (grade_fn (constant_grader (Inl (Exn ValueError ''boom'')))) = Inr 12"
    by (simp add: constant_grader_def)
  have s: "str_nat 12 = ''12''" by code_simp
  show ?thesis
    using h1 h2 f grader_call_absorbs[OF h1, of "[]"] grader_call_absorbs[OF h2, of "[]"]
    by (simp add: s)
qed

text \<open>
  Claim C3 as stated fails for a scoring function that raises an exception outside
  \<open>Exception\<close>, such as \<open>KeyboardInterrupt\<close>: no handler matches and the call raises.
\<close>
theorem grader_call_propagates_counterexample:
  "fst (grader_call (constant_grader (Inl (Exn NonException ''KeyboardInterrupt'')))
          empty_input [])
     = Inl (Exn NonException ''KeyboardInterrupt'')"
  by (simp add: grader_call_def constant_grader_def)

text \<open>
  Claim C5, amended. A score that is a float is returned rounded to five decimals by the
  \<open>round\<close> of its type, a tie going to the even last digit. A built-in float \<open>x\<close> is
  returned as the double nearest to \<open>k / 10\<^sup>5\<close>, where \<open>k\<close> is an integer nearest to
  the exact product \<open>x \<times> 10\<^sup>5\<close>, the even one at a tie. A \<open>numpy.float64\<close> \<open>x\<close> is
  returned as the double nearest to \<open>k / 10\<^sup>5\<close>, where \<open>k\<close> is an integer nearest to
  the float product \<open>p = x * 1e5\<close>, the even one at a tie. Away from a tie this is
  rounding the product half up. A value that is not a float is returned unchanged.
\<close>
theorem grader_call_rounds:
  assumes "call (grade_fn g) (kwargs gi) = Inr v"
  shows "(\<forall>x. v = PyFloat x \<longrightarrow>
            (\<exists>k. grader_call g gi lg = (Inr (PyFloat (to_double (of_int k / 10 ^ 5))), lg)
                 \<and> \<bar>x * 10 ^ 5 - of_int k\<bar> \<le> 1 / 2
                 \<and> (\<bar>x * 10 ^ 5 - of_int k\<bar> = 1 / 2 \<longrightarrow> even k)
                 \<and> (x * 10 ^ 5 - of_int \<lfloor>x * 10 ^ 5\<rfloor> \<noteq> 1 / 2 \<longrightarrow> k = \<lfloor>x * 10 ^ 5 + 1 / 2\<rfloor>)))
       \<and> (\<forall>x. v = NpFloat64 x \<longrightarrow>
            (\<exists>k p. p = to_double (x * 10 ^ 5)
                 \<and> grader_call g gi lg = (Inr (NpFloat64 (to_double (of_int k / 10 ^ 5))), lg)
                 \<and> \<bar>p - of_int k\<bar> \<le> 1 / 2
                 \<and> (\<bar>p - of_int k\<bar> = 1 / 2 \<longrightarrow> even k)
                 \<and> (p - of_int \<lfloor>p\<rfloor> \<noteq> 1 / 2 \<longrightarrow> k = \<lfloor>p + 1 / 2\<rfloor>)))
       \<and> ((\<forall>x. v \<noteq> PyFloat x \<and> v \<noteq> NpFloat64 x) \<longrightarrow> grader_call g gi lg = (Inr v, lg))"
proof (intro conjI allI impI)
  fix x assume v: "v = PyFloat x"
  define k where "k = round_half_even (x * 10 ^ 5)"
  have "grader_call g gi lg = (Inr (PyFloat (to_double (of_int k / 10 ^ 5))), lg)"
    unfolding grader_call_return[OF assms] v k_def by (simp add: py_round_def)
  moreover have "\<bar>x * 10 ^ 5 - of_int k\<bar> \<le> 1 / 2"
    unfolding k_def by (rule round_half_even_near)
  moreover have "\<bar>x * 10 ^ 5 - of_int k\<bar> = 1 / 2 \<longrightarrow> even k"
    unfolding k_def using round_half_even_tie by blast
  moreover have "x * 10 ^ 5 - of_int \<lfloor>x * 10 ^ 5\<rfloor> \<noteq> 1 / 2 \<longrightarrow> k = \<lfloor>x * 10 ^ 5 + 1 / 2\<rfloor>"
    unfolding k_def using round_half_even_no_tie by blast
  ultimately show "\<exists>k. grader_call g gi lg = (Inr (PyFloat (to_double (of_int k / 10 ^ 5))), lg)
                 \<and> \<bar>x * 10 ^ 5 - of_int k\<bar> \<le> 1 / 2
                 \<and> (\<bar>x * 10 ^ 5 - of_int k\<bar> = 1 / 2 \<longrightarrow> even k)
                 \<and> (x * 10 ^ 5 - of_int \<lfloor>x * 10 ^ 5\<rfloor> \<noteq> 1 / 2 \<longrightarrow> k = \<lfloor>x * 10 ^ 5 + 1 / 2\<rfloor>)"
    by blast
next
  fix x assume v: "v = NpFloat64 x"
  define p where "p = to_double (x * 10 ^ 5)"
  define k where "k = round_half_even p"
  have "grader_call g gi lg = (Inr (NpFloat64 (to_double (of_int k / 10 ^ 5))), lg)"
    unfolding grader_call_return[OF assms] v k_def p_def by (simp add: np_round_def)
  moreover have "\<bar>p - of_int k\<bar> \<le> 1 / 2"
    unfolding k_def by (rule round_half_even_near)
  moreover have "\<bar>p - of_int k\<bar> = 1 / 2 \<longrightarrow> even k"
    unfolding k_def using round_half_even_tie by blast
  moreover have "p - of_int \<lfloor>p\<rfloor> \<noteq> 1 / 2 \<longrightarrow> k = \<lfloor>p + 1 / 2\<rfloor>"
    unfolding k_def using round_half_even_no_tie by blast
  ultimately show "\<exists>k p. p = to_double (x * 10 ^ 5)
                 \<and> grader_call g gi lg = (Inr (NpFloat64 (to_double (of_int k / 10 ^ 5))), lg)
                 \<and> \<bar>p - of_int k\<bar> \<le> 1 / 2
                 \<and> (\<bar>p - of_int k\<bar> = 1 / 2 \<longrightarrow> even k)
                 \<and> (p - of_int \<lfloor>p\<rfloor> \<noteq> 1 / 2 \<longrightarrow> k = \<lfloor>p + 1 / 2\<rfloor>)"
    unfolding p_def by blast
next
  assume "\<forall>x. v \<noteq> PyFloat x \<and> v \<noteq> NpFloat64 x"
  then show "grader_call g gi lg = (Inr v, lg)"
    unfolding grader_call_return[OF assms] by (cases v) simp_all
qed

text \<open>
  Claim C5 as stated fails at the float \<open>0.015625 = 1/64\<close>, an exact tie at five
  decimals: \<open>Grader.__call__\<close> returns \<open>0.01562\<close>, for a built-in float and for a
  \<open>numpy.float64\<close>; rounding half up gives \<open>0.01563\<close>.
\<close>
theorem grader_call_half_up_counterexample:
  "fst (grader_call (constant_grader (Inr (PyFloat (1 / 64)))) empty_input [])
     \<noteq> Inr (PyFloat (spec_round_half_up_5 (1 / 64)))
   \<and> fst (grader_call (constant_grader (Inr (NpFloat64 (1 / 64)))) empty_input [])
     \<noteq> Inr (NpFloat64 (spec_round_half_up_5 (1 / 64)))"
proof -
  have a: "py_round (1 / 64) 5 = 9004316950979475 / 576460752303423488" by code_simp
  have c: "np_round (1 / 64) 5 = 9004316950979475 / 576460752303423488" by code_simp
  have b: "spec_round_half_up_5 (1 / 64) = 4505040779251255 / 288230376151711744" by code_simp
  show ?thesis by (simp add: grader_call_def constant_grader_def a b c)
qed

text \<open>
  The examples of the specification: \<open>0.123456\<close> gives \<open>0.12346\<close>. The double written
  \<open>0.123455\<close> lies below the tie: as a built-in float it gives \<open>0.12345\<close>; as a
  \<open>numpy.float64\<close> its float product with \<open>1e5\<close> is \<open>12345.5\<close>, a tie that goes to the
  even \<open>12346\<close>, and it gives \<open>0.12346\<close>.
\<close>
lemma py_round_examples:
  "py_round (to_double (123456 / 1000000)) 5 = to_double (12346 / 100000)"
  "py_round (to_double (123455 / 1000000)) 5 = to_double (12345 / 100000)"
  "to_double (123455 / 1000000) < 123455 / 1000000"
  "py_round (1 / 64) 5 = to_double (1562 / 100000)"
  "np_round (to_double (123456 / 1000000)) 5 = to_double (12346 / 100000)"
  "to_double (to_double (123455 / 1000000) * 10 ^ 5) = 24691 / 2"
  "np_round (to_double (123455 / 1000000)) 5 = to_double (12346 / 100000)"
  "np_round (1 / 64) 5 = to_double (1562 / 100000)"
  by code_simp+

theorem grader_call_rounds_witness:
  "call (grade_fn (constant_grader (Inr (PyFloat (to_double (123455 / 1000000))))))
      (kwargs empty_input) = Inr (PyFloat (to_double (123455 / 1000000)))
   \<and> grader_call (constant_grader (Inr (PyFloat (to_double (123455 / 1000000))))) empty_input []
       = (Inr (PyFloat (to_double (12345 / 100000))), [])
   \<and> call (grade_fn (constant_grader (Inr (NpFloat64 (to_double (123455 / 1000000))))))
      (kwargs empty_input) = Inr (NpFloat64 (to_double (123455 / 1000000)))
   \<and> grader_call (constant_grader (Inr (NpFloat64 (to_double (123455 / 1000000))))) empty_input []
       = (Inr (NpFloat64 (to_double (12346 / 100000))), [])
   \<and> call (grade_fn (constant_grader (Inr (PyInt 3)))) (kwargs empty_input) = Inr (PyInt 3)
   \<and> grader_call (constant_grader (Inr (PyInt 3))) empty_input [] = (Inr (PyInt 3), [])"
proof -
  define x :: rat where "x = to_double (123455 / 1000000)"
  have h1: "call (grade_fn (constant_grader (Inr (PyFloat x)))) (kwargs empty_input)
      = Inr (PyFloat x)"
    by (simp add: constant_grader_def)
  have h2: "call (grade_fn (constant_grader (Inr (PyInt 3)))) (kwargs empty_input) = Inr (PyInt 3)"
    by (simp add: constant_grader_def)
  have h3: "call (grade_fn (constant_grader (Inr (NpFloat64 x)))) (kwargs empty_input)
      = Inr (NpFloat64 x)"
    by (simp add: constant_grader_def)
  have nt: "x * 10 ^ 5 - of_int \<lfloor>x * 10 ^ 5\<rfloor> \<noteq> 1 / 2" unfolding x_def by code_simp
  have fl: "\<lfloor>x * 10 ^ 5 + 1 / 2\<rfloor> = 12345" unfolding x_def by code_simp
  from grader_call_rounds[OF h1, of "[]"] nt fl
  have r1: "grader_call (constant_grader (Inr (PyFloat x))) empty_input []
      = (Inr (PyFloat (to_double (12345 / 100000))), [])"
    by auto
  from grader_call_rounds[OF h2, of "[]"]
  have r2: "grader_call (constant_grader (Inr (PyInt 3))) empty_input [] = (Inr (PyInt 3), [])"
    by simp
  have p: "to_double (x * 10 ^ 5) = 24691 / 2" unfolding x_def by code_simp
  from grader_call_rounds[OF h3, of "[]"]
  have "\<exists>k. grader_call (constant_grader (Inr (NpFloat64 x))) empty_input []
          = (Inr (NpFloat64 (to_double (of_int k / 10 ^ 5))), [])
        \<and> \<bar>to_double (x * 10 ^ 5) - of_int k\<bar> \<le> 1 / 2
        \<and> (\<bar>to_double (x * 10 ^ 5) - of_int k\<bar> = 1 / 2 \<longrightarrow> even k)"
    by blast
  then obtain k where k: "grader_call (constant_grader (Inr (NpFloat64 x))) empty_input []
        = (Inr (NpFloat64 (to_double (of_int k / 10 ^ 5))), [])"
      and near: "\<bar>24691 / 2 - (of_int k :: rat)\<bar> \<le> 1 / 2"
      and ev: "\<bar>24691 / 2 - (of_int k :: rat)\<bar> = 1 / 2 \<longrightarrow> even k"
    unfolding p by blast
  have "(of_int k :: rat) \<le> 12346" "(12345 :: rat) \<le> of_int k"
    using near by linarith+
  then have "k \<le> 12346" "12345 \<le> k" by simp_all
  then have "k = 12345 \<or> k = 12346" by linarith
  then have kv: "k = 12346" using ev by auto
  have r3: "grader_call (constant_grader (Inr (NpFloat64 x))) empty_input []
      = (Inr (NpFloat64 (to_double (12346 / 100000))), [])"
    using k unfolding kv by simp
  show ?thesis using h1 h2 h3 r1 r2 r3 unfolding x_def by blast
qed

subsection \<open>Report codecs\<close>

lemma exn_bind_Inr: "exn_bind (Inr x) f = f x"
  by (simp add: exn_bind_def)

lemma CompetitionReport_typed_data_to_dict:
  assumes valid: "valid_report r"
    and score: "\<And>x. cr_score r = Some x \<Longrightarrow> float_of_str L (py_str L x) = Inr x"
    and created: "fromisoformat L (isoformat L (cr_created_at r)) = Inr (cr_created_at r)"
  shows "\<exists>d. CompetitionReport_to_dict L r = Inr d \<and> CompetitionReport_typed_data L d = Inr r"
proof -
  from valid obtain g s b m a gm sm bm am where f:
    "cr_gold_threshold r = Some g" "cr_silver_threshold r = Some s"
    "cr_bronze_threshold r = Some b" "cr_median_threshold r = Some m"
    "cr_any_medal r = Some a" "cr_gold_medal r = Some gm" "cr_silver_medal r = Some sm"
    "cr_bronze_medal r = Some bm" "cr_above_median r = Some am"
    unfolding valid_report_def by auto
  define d where "d = map_of
         [(''competition_id'', cr_competition_id r),
          (''score'', case cr_score r of None \<Rightarrow> PyNone | Some x \<Rightarrow> PyStr (py_str L x)),
          (''gold_threshold'', PyFloat g),
          (''silver_threshold'', PyFloat s),
          (''bronze_threshold'', PyFloat b),
          (''median_threshold'', PyFloat m),
          (''any_medal'', PyBool a),
          (''gold_medal'', PyBool gm),
          (''silver_medal'', PyBool sm),
          (''bronze_medal'', PyBool bm),
          (''above_median'', PyBool am),
          (''submission_exists'', PyBool (cr_submission_exists r)),
          (''valid_submission'', PyBool (cr_valid_submission r)),
          (''is_lower_better'', PyBool (cr_is_lower_better r)),
          (''created_at'', PyStr (isoformat L (cr_created_at r))),
          (''submission_path'', cr_submission_path r)]"
  have td: "CompetitionReport_to_dict L r = Inr d"
    unfolding CompetitionReport_to_dict_def f float_field_def bool_field_def d_def
    by (simp add: exn_bind_Inr)
  have k: "getitem d ''competition_id'' = Inr (cr_competition_id r)"
    "getitem d ''score'' = Inr (case cr_score r of None \<Rightarrow> PyNone | Some x \<Rightarrow> PyStr (py_str L x))"
    "getitem d ''gold_threshold'' = Inr (PyFloat g)"
    "getitem d ''silver_threshold'' = Inr (PyFloat s)"
    "getitem d ''bronze_threshold'' = Inr (PyFloat b)"
    "getitem d ''median_threshold'' = Inr (PyFloat m)"
    "getitem d ''any_medal'' = Inr (PyBool a)"
    "getitem d ''gold_medal'' = Inr (PyBool gm)"
    "getitem d ''silver_medal'' = Inr (PyBool sm)"
    "getitem d ''bronze_medal'' = Inr (PyBool bm)"
    "getitem d ''above_median'' = Inr (PyBool am)"
    "getitem d ''submission_exists'' = Inr (PyBool (cr_submission_exists r))"
    "getitem d ''valid_submission'' = Inr (PyBool (cr_valid_submission r))"
    "getitem d ''is_lower_better'' = Inr (PyBool (cr_is_lower_better r))"
    "getitem d ''created_at'' = Inr (PyStr (isoformat L (cr_created_at r)))"
    "getitem d ''submission_path'' = Inr (cr_submission_path r)"
    unfolding d_def getitem_def by simp_all
  have sc: "(if (case cr_score r of None \<Rightarrow> PyNone | Some x \<Rightarrow> PyStr (py_str L x)) \<noteq> PyNone
             then exn_bind (py_float L (case cr_score r of None \<Rightarrow> PyNone
                                         | Some x \<Rightarrow> PyStr (py_str L x)))
                    (\<lambda>x. Inr (Some x))
             else Inr None) = Inr (cr_score r)"
    using score by (cases "cr_score r") (simp_all add: exn_bind_Inr)
  have "CompetitionReport_typed_data L d = Inr r"
    unfolding CompetitionReport_typed_data_def k exn_bind_Inr sc
    using f created by (cases r) (simp add: exn_bind_Inr)
  with td show ?thesis by blast
qed


lemma CodeCompetitionReport_typed_data_to_dict:
  assumes created: "fromisoformat L (isoformat L (ccr_created_at c)) = Inr (ccr_created_at c)"
  shows "CodeCompetitionReport_typed_data L (CodeCompetitionReport_to_dict L c) = Inr c"
proof -
  define d where "d = CodeCompetitionReport_to_dict L c"
  have k: "getitem d ''competition_id'' = Inr (ccr_competition_id c)"
    "getitem d ''defined_classes'' = Inr (ccr_defined_classes c)"
    "getitem d ''initialized_classes'' = Inr (ccr_initialized_classes c)"
    "getitem d ''defined_class_methods'' = Inr (ccr_defined_class_methods c)"
    "getitem d ''executed_class_methods'' = Inr (ccr_executed_class_methods c)"
    "getitem d ''defined_functions'' = Inr (ccr_defined_functions c)"
    "getitem d ''executed_functions'' = Inr (ccr_executed_functions c)"
    "getitem d ''test_metric'' = Inr (ccr_test_metric c)"
    "getitem d ''submission_exists'' = Inr (PyBool (ccr_submission_exists c))"
    "getitem d ''valid_submission'' = Inr (PyBool (ccr_valid_submission c))"
    "getitem d ''created_at'' = Inr (PyStr (isoformat L (ccr_created_at c)))"
    "getitem d ''submission_path'' = Inr (ccr_submission_path c)"
    unfolding d_def CodeCompetitionReport_to_dict_def getitem_def by simp_all
  have "CodeCompetitionReport_typed_data L d = Inr c"
    unfolding CodeCompetitionReport_typed_data_def k exn_bind_Inr
    using created by (cases c) (simp add: exn_bind_Inr)
  then show ?thesis unfolding d_def .
qed

lemma dict_copy_contents:
  "dict_copy h data = (data', h') \<Longrightarrow> objs h' data' = objs h data"
  by (auto simp: dict_copy_def)

lemma CompetitionReport_from_dict_eq:
  "CompetitionReport_from_dict L h data =
     (CompetitionReport_typed_data L (objs h data), snd (dict_copy h data))"
  unfolding CompetitionReport_from_dict_def
  by (cases "dict_copy h data") (simp add: dict_copy_contents)

lemma CodeCompetitionReport_from_dict_eq:
  "CodeCompetitionReport_from_dict L h data =
     (CodeCompetitionReport_typed_data L (objs h data), snd (dict_copy h data))"
  unfolding CodeCompetitionReport_from_dict_def
  by (cases "dict_copy h data") (simp add: dict_copy_contents)

text \<open>
  Claim C4. For a valid \<open>CompetitionReport\<close> and any \<open>CodeCompetitionReport\<close>,
  \<open>from_dict\<close> of the dictionary that \<open>to_dict\<close> produces is the report itself, in all
  fields. The score goes through \<open>str\<close> and \<open>float\<close> and is compared as a number, the
  timestamp goes through \<open>isoformat\<close> and \<open>fromisoformat\<close>; these library functions are
  taken to undo each other on the score and the timestamps of the reports.
\<close>
theorem report_round_trip:
  assumes "valid_report r"
    and "\<forall>x. cr_score r = Some x \<longrightarrow> float_of_str L (py_str L x) = Inr x"
    and "fromisoformat L (isoformat L (cr_created_at r)) = Inr (cr_created_at r)"
    and "fromisoformat L (isoformat L (ccr_created_at c)) = Inr (ccr_created_at c)"
  shows "(\<exists>d. CompetitionReport_to_dict L r = Inr d
            \<and> (\<forall>h data. objs h data = d \<longrightarrow>
                  fst (CompetitionReport_from_dict L h data) = Inr r))
       \<and> (\<forall>h data. objs h data = CodeCompetitionReport_to_dict L c \<longrightarrow>
              fst (CodeCompetitionReport_from_dict L h data) = Inr c)"
proof -
  from CompetitionReport_typed_data_to_dict[OF assms(1) _ assms(3)] assms(2)
  obtain d where d: "CompetitionReport_to_dict L r = Inr d"
      "CompetitionReport_typed_data L d = Inr r"
    by blast
  have "\<forall>h data. objs h data = d \<longrightarrow> fst (CompetitionReport_from_dict L h data) = Inr r"
    using d(2) by (simp add: CompetitionReport_from_dict_eq)
  moreover have "\<forall>h data. objs h data = CodeCompetitionReport_to_dict L c \<longrightarrow>
      fst (CodeCompetitionReport_from_dict L h data) = Inr c"
    using CodeCompetitionReport_typed_data_to_dict[OF assms(4)]
    by (simp add: CodeCompetitionReport_from_dict_eq)
  ultimately show ?thesis using d(1) by blast
qed

text \<open>
  Claim C9. Both \<open>from_dict\<close> methods leave the input dictionary as it was: they read a
  copy, and what they return is decoded from the entries of the input. No dictionary
  allocated before the call changes.
\<close>
theorem from_dict_frame:
  "objs (snd (CompetitionReport_from_dict L h data)) data = objs h data
   \<and> fst (CompetitionReport_from_dict L h data) = CompetitionReport_typed_data L (objs h data)
   \<and> objs (snd (CodeCompetitionReport_from_dict L' h data)) data = objs h data
   \<and> fst (CodeCompetitionReport_from_dict L' h data)
       = CodeCompetitionReport_typed_data L' (objs h data)
   \<and> (\<forall>a. a < next_free h \<longrightarrow>
         objs (snd (CompetitionReport_from_dict L h data)) a = objs h a
         \<and> objs (snd (CodeCompetitionReport_from_dict L' h data)) a = objs h a)"
  unfolding CompetitionReport_from_dict_eq CodeCompetitionReport_from_dict_eq
  by (simp add: dict_copy_def)


text \<open>\<open>to_dict\<close> raises on a report whose threshold is \<open>None\<close>.\<close>
lemma to_dict_needs_thresholds:
  "cr_gold_threshold r = None \<Longrightarrow>
     CompetitionReport_to_dict L r
       = Inl (Exn TypeError ''float() argument must be a string or a real number'')"
  by (simp add: CompetitionReport_to_dict_def float_field_def exn_bind_def)

theorem report_round_trip_witness:
  "valid_report example_report
   \<and> cr_score example_report = Some (1 / 2)
   \<and> float_of_str example_lib (py_str example_lib (1 / 2)) = Inr (1 / 2)
   \<and> fromisoformat example_lib (isoformat example_lib (cr_created_at example_report))
       = Inr (cr_created_at example_report)
   \<and> fromisoformat example_lib (isoformat example_lib (ccr_created_at example_code_report))
       = Inr (ccr_created_at example_code_report)
   \<and> (\<exists>d. CompetitionReport_to_dict example_lib example_report = Inr d
          \<and> fst (CompetitionReport_from_dict example_lib \<lparr>objs = (\<lambda>_. d), next_free = 1\<rparr> 0)
              = Inr example_report)
   \<and> fst (CodeCompetitionReport_from_dict example_lib
            \<lparr>objs = (\<lambda>_. CodeCompetitionReport_to_dict example_lib example_code_report),
             next_free = 1\<rparr> 0)
       = Inr example_code_report"
proof -
  have h1: "valid_report example_report"
    by (simp add: valid_report_def example_report_def)
  have h2: "\<forall>x. cr_score example_report = Some x \<longrightarrow>
      float_of_str example_lib (py_str example_lib x) = Inr x"
    by (simp add: example_report_def example_lib_def)
  have h3: "fromisoformat example_lib (isoformat example_lib (cr_created_at example_report))
      = Inr (cr_created_at example_report)"
    by (simp add: example_report_def example_lib_def)
  have h4: "fromisoformat example_lib (isoformat example_lib (ccr_created_at example_code_report))
      = Inr (ccr_created_at example_code_report)"
    by (simp add: example_code_report_def example_lib_def)
  from report_round_trip[OF h1 h2 h3 h4]
  obtain d where d: "CompetitionReport_to_dict example_lib example_report = Inr d"
    and r1: "\<forall>h data. objs h data = d \<longrightarrow>
        fst (CompetitionReport_from_dict example_lib h data) = Inr example_report"
    and r2: "\<forall>h data. objs h data = CodeCompetitionReport_to_dict example_lib example_code_report
        \<longrightarrow> fst (CodeCompetitionReport_from_dict example_lib h data) = Inr example_code_report"
    by blast
  have a: "fst (CompetitionReport_from_dict example_lib \<lparr>objs = (\<lambda>_. d), next_free = 1\<rparr> 0)
      = Inr example_report"
    using r1 by simp
  have b: "fst (CodeCompetitionReport_from_dict example_lib
            \<lparr>objs = (\<lambda>_. CodeCompetitionReport_to_dict example_lib example_code_report),
             next_free = 1\<rparr> 0)
       = Inr example_code_report"
    using r2 by simp
  have s: "cr_score example_report = Some (1 / 2)"
    "float_of_str example_lib (py_str example_lib (1 / 2)) = Inr (1 / 2)"
    by (simp_all add: example_report_def example_lib_def)
  show ?thesis using h1 s h3 h4 d a b by blast
qed

theorem from_dict_frame_witness:
  "(0::nat) < next_free \<lparr>objs = (\<lambda>_. Map.empty), next_free = 1\<rparr>
   \<and> objs (snd (CompetitionReport_from_dict example_lib
                  \<lparr>objs = (\<lambda>_. Map.empty), next_free = 1\<rparr> 0)) 0 = Map.empty
   \<and> objs (snd (CodeCompetitionReport_from_dict example_lib
                  \<lparr>objs = (\<lambda>_. Map.empty), next_free = 1\<rparr> 0)) 0 = Map.empty"
  using from_dict_frame[of example_lib "\<lparr>objs = (\<lambda>_. Map.empty), next_free = 1\<rparr>" 0 example_lib]
  by simp

end
